theory Spec2Isabelle
  imports Main "HOL-Library.Sublist" "HOL-Library.Monad_Syntax"
begin

section \<open>Python strings\<close>

text \<open>
  The two scripts \<^verbatim>\<open>gen_enum_from_strings.py\<close> and \<^verbatim>\<open>ts_interface_to_rust.py\<close> work on
  Python \<^verbatim>\<open>str\<close> values. A \<^typ>\<open>string\<close> stands for such a value, one \<^typ>\<open>char\<close> per code
  point; the model covers ASCII text, which is what the scripts are run on (TypeScript
  interface descriptions). Characters outside ASCII are neither letters nor white space
  in the model.
\<close>

datatype py_error = AttributeError | IndexError

definition nl :: char where
  "nl = CHR 0x0A"

definition ascii_lowercase :: string where
  "ascii_lowercase = ''abcdefghijklmnopqrstuvwxyz''"

definition ascii_uppercase :: string where
  "ascii_uppercase = ''ABCDEFGHIJKLMNOPQRSTUVWXYZ''"

definition ascii_digits :: string where
  "ascii_digits = ''0123456789''"

definition is_upper :: "char \<Rightarrow> bool" where
  "is_upper c = (c \<in> set ascii_uppercase)"

text \<open>\<^verbatim>\<open>str.upper\<close> and \<^verbatim>\<open>str.lower\<close>, one character at a time.\<close>

definition upper_char :: "char \<Rightarrow> char" where
  "upper_char c = (case map_of (zip ascii_lowercase ascii_uppercase) c of Some u \<Rightarrow> u | None \<Rightarrow> c)"

definition lower_char :: "char \<Rightarrow> char" where
  "lower_char c = (case map_of (zip ascii_uppercase ascii_lowercase) c of Some l \<Rightarrow> l | None \<Rightarrow> c)"

definition lower :: "string \<Rightarrow> string" where
  "lower s = map lower_char s"

text \<open>\<^verbatim>\<open>str.capitalize\<close>: the first character in upper case, all the others in lower case.\<close>

fun capitalize :: "string \<Rightarrow> string" where
  "capitalize [] = []"
| "capitalize (c # cs) = upper_char c # map lower_char cs"

text \<open>White space, as \<^verbatim>\<open>str.strip\<close> and the class \<^verbatim>\<open>\s\<close> see it.\<close>

definition is_space :: "char \<Rightarrow> bool" where
  "is_space c = (c \<in> set [CHR 0x09, CHR 0x0A, CHR 0x0B, CHR 0x0C, CHR 0x0D,
                           CHR 0x1C, CHR 0x1D, CHR 0x1E, CHR 0x1F, CHR 0x20])"

text \<open>The class \<^verbatim>\<open>\w\<close>: letters, digits and the underscore.\<close>

definition is_word :: "char \<Rightarrow> bool" where
  "is_word c = (c \<in> set (ascii_lowercase @ ascii_uppercase @ ascii_digits @ ''_''))"

definition strip :: "string \<Rightarrow> string" where
  "strip s = rev (dropWhile is_space (rev (dropWhile is_space s)))"

text \<open>\<^verbatim>\<open>s.split(sep)\<close> for a separator of one character: never an empty list.\<close>

fun split_on :: "char \<Rightarrow> string \<Rightarrow> string list" where
  "split_on sep [] = [[]]"
| "split_on sep (c # cs) =
     (let r = split_on sep cs in if c = sep then [] # r else (c # hd r) # tl r)"

text \<open>A loop or comprehension whose body may raise: the first exception ends it.\<close>

fun traverse :: "('a \<Rightarrow> py_error + 'b) \<Rightarrow> 'a list \<Rightarrow> py_error + 'b list" where
  "traverse f [] = Inr []"
| "traverse f (x # xs) =
     (case f x of
        Inl e \<Rightarrow> Inl e
      | Inr y \<Rightarrow> (case traverse f xs of Inl e \<Rightarrow> Inl e | Inr ys \<Rightarrow> Inr (y # ys)))"

section \<open>The regular expressions of module \<^verbatim>\<open>re\<close>\<close>

text \<open>
  The constructs that the patterns of the two scripts use. The repetitions \<^verbatim>\<open>*\<close>, \<^verbatim>\<open>+\<close>
  and \<^verbatim>\<open>+?\<close> are only ever applied to one character class there, \<^verbatim>\<open>?\<close> also to groups.
\<close>

datatype regex =
    Str string                  \<comment> \<open>a run of literal characters\<close>
  | Cls "char \<Rightarrow> bool"          \<comment> \<open>one character of a class\<close>
  | Seq regex regex
  | Alt regex regex             \<comment> \<open>\<^verbatim>\<open>a|b\<close>\<close>
  | Opt regex                   \<comment> \<open>\<^verbatim>\<open>a?\<close>, greedy\<close>
  | Star "char \<Rightarrow> bool"         \<comment> \<open>\<^verbatim>\<open>c*\<close>, greedy\<close>
  | Plus "char \<Rightarrow> bool"         \<comment> \<open>\<^verbatim>\<open>c+\<close>, greedy\<close>
  | LazyPlus "char \<Rightarrow> bool"     \<comment> \<open>\<^verbatim>\<open>c+?\<close>\<close>
  | Group string regex          \<comment> \<open>a capturing group, by name or by number\<close>
  | Ahead regex                 \<comment> \<open>\<^verbatim>\<open>(?=a)\<close>\<close>
  | NotAtStart                  \<comment> \<open>\<^verbatim>\<open>(?<!^)\<close>\<close>

type_synonym groups = "(string \<times> string) list"

definition run :: "(char \<Rightarrow> bool) \<Rightarrow> string \<Rightarrow> nat \<Rightarrow> nat" where
  "run p s i = length (takeWhile p (drop i s))"

text \<open>
  \<open>rmatch r s i g\<close> lists the ways in which \<open>r\<close> matches \<open>s\<close> from position \<open>i\<close>, each as
  the end position and the groups captured, in the order in which the backtracking
  matcher of \<^verbatim>\<open>re\<close> tries them. The head of the list is the match that \<^verbatim>\<open>re\<close> reports.
\<close>

primrec rmatch :: "regex \<Rightarrow> string \<Rightarrow> nat \<Rightarrow> groups \<Rightarrow> (nat \<times> groups) list" where
  "rmatch (Str w) s i g = (if take (length w) (drop i s) = w then [(i + length w, g)] else [])"
| "rmatch (Cls p) s i g = (if i < length s \<and> p (s ! i) then [(Suc i, g)] else [])"
| "rmatch (Seq a b) s i g = concat (map (\<lambda>(j, h). rmatch b s j h) (rmatch a s i g))"
| "rmatch (Alt a b) s i g = rmatch a s i g @ rmatch b s i g"
| "rmatch (Opt a) s i g = rmatch a s i g @ [(i, g)]"
| "rmatch (Star p) s i g = map (\<lambda>n. (i + n, g)) (rev [0..<Suc (run p s i)])"
| "rmatch (Plus p) s i g = map (\<lambda>n. (i + n, g)) (rev [1..<Suc (run p s i)])"
| "rmatch (LazyPlus p) s i g = map (\<lambda>n. (i + n, g)) [1..<Suc (run p s i)]"
| "rmatch (Group n a) s i g =
     map (\<lambda>(j, h). (j, (n, take (j - i) (drop i s)) # h)) (rmatch a s i g)"
| "rmatch (Ahead a) s i g = (case rmatch a s i g of [] \<Rightarrow> [] | (j, h) # _ \<Rightarrow> [(i, h)])"
| "rmatch NotAtStart s i g = (if i = 0 then [] else [(i, g)])"

fun seqs :: "regex list \<Rightarrow> regex" where
  "seqs [] = Str []"
| "seqs [r] = r"
| "seqs (r # rs) = Seq r (seqs rs)"

text \<open>A match object: where the match starts and ends, and its groups.\<close>

record match_object =
  m_start :: nat
  m_end :: nat
  m_groups :: groups

text \<open>\<^verbatim>\<open>m.group(n)\<close>; \<open>None\<close> is Python's \<^verbatim>\<open>None\<close>, for a group that took no part.\<close>

definition group :: "match_object \<Rightarrow> string \<Rightarrow> string option" where
  "group m n = map_of (m_groups m) n"

fun first_match :: "regex \<Rightarrow> string \<Rightarrow> nat list \<Rightarrow> match_object option" where
  "first_match r s [] = None"
| "first_match r s (p # ps) =
     (case rmatch r s p [] of
        [] \<Rightarrow> first_match r s ps
      | (j, g) # _ \<Rightarrow> Some \<lparr>m_start = p, m_end = j, m_groups = g\<rparr>)"

text \<open>\<^verbatim>\<open>re.match\<close> tries position 0 only, \<^verbatim>\<open>re.search\<close> every position from the left.\<close>

definition re_match :: "regex \<Rightarrow> string \<Rightarrow> match_object option" where
  "re_match r s = first_match r s [0]"

definition re_search :: "regex \<Rightarrow> string \<Rightarrow> match_object option" where
  "re_search r s = first_match r s [0..<Suc (length s)]"

text \<open>
  \<^verbatim>\<open>re.sub\<close>, scanning from position \<open>p\<close>. After an empty match at \<open>p\<close> (\<open>adv\<close>) the next
  match at \<open>p\<close> has to be a non-empty one. Where nothing matches at \<open>p\<close>, the character
  there is copied.
\<close>

function sub_from :: "regex \<Rightarrow> (groups \<Rightarrow> string) \<Rightarrow> string \<Rightarrow> nat \<Rightarrow> bool \<Rightarrow> string" where
  "sub_from r repl s p adv =
     (if length s < p then []
      else case filter (\<lambda>(j, g). adv \<longrightarrow> p < j) (rmatch r s p []) of
             (j, g) # _ \<Rightarrow>
               repl g @ (if p < j then sub_from r repl s j False else sub_from r repl s p True)
           | [] \<Rightarrow> if p < length s then s ! p # sub_from r repl s (Suc p) False else [])"
  by pat_completeness auto
termination
proof (relation "measure (\<lambda>(r, repl, s, p, adv). 2 * (Suc (length s) - p) + (if adv then 0 else 1))",
    goal_cases)
  case 1
  show ?case by simp
next
  case (2 r repl s p adv)
  then show ?case by (auto split: if_splits)
next
  case (3 r repl s p adv m ms j g)
  then show ?case by (auto split: if_splits)
next
  case (4 r repl s p adv m ms j g)
  from 4(2) have "case m of (j, g) \<Rightarrow> adv \<longrightarrow> p < j"
    by (auto dest!: filter_eq_ConsD)
  with 4 have "\<not> adv" by auto
  then show ?case by simp
qed

definition re_sub :: "regex \<Rightarrow> (groups \<Rightarrow> string) \<Rightarrow> string \<Rightarrow> string" where
  "re_sub r repl s = sub_from r repl s 0 False"

section \<open>\<^verbatim>\<open>gen_enum_from_strings.py\<close>\<close>

text \<open>The pattern \<^verbatim>\<open>'?(\w+)'?\<close> of \<^verbatim>\<open>get_strings\<close>.\<close>

definition TOKEN :: regex where
  "TOKEN = seqs [Opt (Str [CHR 0x27]), Group ''1'' (Plus is_word), Opt (Str [CHR 0x27])]"

text \<open>
  The text of a group that is not under \<^verbatim>\<open>?\<close> in its pattern. Such a group takes part in
  every match, so that \<^verbatim>\<open>m.group(n)\<close> is a string, not \<^verbatim>\<open>None\<close>.
\<close>

definition text_of :: "string option \<Rightarrow> string" where
  "text_of x = (case x of Some w \<Rightarrow> w | None \<Rightarrow> [])"

text \<open>
  \<^verbatim>\<open>re.search(...).group(1)\<close> for one item: where the search finds nothing it returns
  \<^verbatim>\<open>None\<close>, and \<^verbatim>\<open>.group\<close> on that raises \<^verbatim>\<open>AttributeError\<close>.
\<close>

definition get_string :: "string \<Rightarrow> py_error + string" where
  "get_string item =
     (case re_search TOKEN item of
        None \<Rightarrow> Inl AttributeError
      | Some m \<Rightarrow> Inr (text_of (group m ''1'')))"

definition get_strings :: "string \<Rightarrow> py_error + string list" where
  "get_strings line = traverse get_string (split_on CHR ''|'' line)"

text \<open>\<^verbatim>\<open>s[0].upper() + s[1:]\<close>: \<^verbatim>\<open>s[0]\<close> raises \<^verbatim>\<open>IndexError\<close> on the empty string.\<close>

fun cap :: "string \<Rightarrow> py_error + string" where
  "cap [] = Inl IndexError"
| "cap (c # cs) = Inr (upper_char c # cs)"

definition str_to_variant :: "string \<Rightarrow> py_error + string" where
  "str_to_variant s =
     (case traverse cap (split_on CHR '' '' s) of
        Inl e \<Rightarrow> Inl e
      | Inr parts \<Rightarrow> Inr (concat parts))"

text \<open>
  The three functions that follow each print one line per string into a buffer. The
  lines are kept here as data first: a variant of the enum, an arm of the \<^verbatim>\<open>match\<close> in
  \<^verbatim>\<open>from_str\<close>, an arm of the \<^verbatim>\<open>match\<close> in \<^verbatim>\<open>to_string\<close>; the \<open>show_\<close> functions give the
  text that the source passes to \<^verbatim>\<open>print\<close>.
\<close>

datatype variant_decl =
    UnitDecl string      \<comment> \<open>\<^verbatim>\<open>Name,\<close>\<close>
  | StringDecl           \<comment> \<open>\<^verbatim>\<open>String(String),\<close>\<close>

datatype from_str_arm =
    LiteralArm string string   \<comment> \<open>\<^verbatim>\<open>"item" => Ok(Enum::Name),\<close>\<close>
  | OtherOk                    \<comment> \<open>\<^verbatim>\<open>other => Ok(Enum::String(other.to_string()))\<close>\<close>
  | OtherErr                   \<comment> \<open>\<^verbatim>\<open>other => Err(DeserializationError::StringToEnumParseError {...}),\<close>\<close>

datatype to_string_arm =
    VariantArm string string   \<comment> \<open>\<^verbatim>\<open>Enum::Name => "item",\<close>\<close>
  | StringArm                  \<comment> \<open>\<^verbatim>\<open>Enum::String(other) => other\<close>\<close>

definition print_all :: "string list \<Rightarrow> string" where
  "print_all ls = concat (map (\<lambda>l. l @ [nl]) ls)"

definition ind :: string where
  "ind = ''      ''"

definition variant_of :: "string \<Rightarrow> py_error + variant_decl" where
  "variant_of s =
     (if s \<noteq> ''string'' then map_sum id UnitDecl (str_to_variant s) else Inr StringDecl)"

fun show_variant :: "variant_decl \<Rightarrow> string" where
  "show_variant (UnitDecl v) = ''  '' @ v @ '',''"
| "show_variant StringDecl = ''  String(String),''"

definition variants :: "string list \<Rightarrow> py_error + variant_decl list" where
  "variants strings = traverse variant_of strings"

definition get_variants :: "string list \<Rightarrow> py_error + string" where
  "get_variants strings = map_sum id (\<lambda>vs. strip (print_all (map show_variant vs))) (variants strings)"

definition match_arm_of :: "string \<Rightarrow> py_error + from_str_arm" where
  "match_arm_of item =
     (if item \<noteq> ''string'' then map_sum id (LiteralArm item) (str_to_variant item)
      else Inr OtherOk)"

fun show_match_arm :: "string \<Rightarrow> from_str_arm \<Rightarrow> string" where
  \<open>show_match_arm enum_name (LiteralArm item v) =
     ind @ ''"'' @ item @ ''" => Ok('' @ enum_name @ ''::'' @ v @ ''),''\<close>
| \<open>show_match_arm enum_name OtherOk =
     ind @ ''other => Ok('' @ enum_name @ ''::String(other.to_string()))''\<close>
| \<open>show_match_arm enum_name OtherErr =
     ind @ ''other => Err(DeserializationError::StringToEnumParseError {'' @ [nl] @
     ''        enum_name: "'' @ enum_name @ ''".to_string(),'' @ [nl] @
     ''        value: other.to_string(),'' @ [nl] @
     ''      }),'' @ [nl] @
     ''        ''\<close>

definition match_arms :: "string list \<Rightarrow> py_error + from_str_arm list" where
  "match_arms strings =
     (case traverse match_arm_of strings of
        Inl e \<Rightarrow> Inl e
      | Inr arms \<Rightarrow> Inr (arms @ (if ''string'' \<notin> set strings then [OtherErr] else [])))"

definition get_match_arms :: "string list \<Rightarrow> string \<Rightarrow> py_error + string" where
  "get_match_arms strings enum_name =
     map_sum id (\<lambda>arms. strip (print_all (map (show_match_arm enum_name) arms)))
       (match_arms strings)"

definition enum2str_arm_of :: "string \<Rightarrow> py_error + to_string_arm" where
  "enum2str_arm_of item =
     (if item \<noteq> ''string'' then map_sum id (\<lambda>v. VariantArm v item) (str_to_variant item)
      else Inr StringArm)"

fun show_enum2str_arm :: "string \<Rightarrow> to_string_arm \<Rightarrow> string" where
  \<open>show_enum2str_arm enum_name (VariantArm v item) =
     ind @ enum_name @ ''::'' @ v @ '' => "'' @ item @ ''",''\<close>
| \<open>show_enum2str_arm enum_name StringArm =
     ind @ enum_name @ ''::String(other) => other''\<close>

definition enum2str_match_arms :: "string list \<Rightarrow> py_error + to_string_arm list" where
  "enum2str_match_arms strings = traverse enum2str_arm_of strings"

definition get_enum2str_match_arms :: "string list \<Rightarrow> string \<Rightarrow> py_error + string" where
  "get_enum2str_match_arms strings enum_name =
     map_sum id (\<lambda>arms. strip (print_all (map (show_enum2str_arm enum_name) arms)))
       (enum2str_match_arms strings)"

text \<open>\<^verbatim>\<open>tmpl.format(name=..., variants=..., match_arms=..., enum2str_match_arms=...)\<close>.\<close>

definition tmpl :: "string \<Rightarrow> string \<Rightarrow> string \<Rightarrow> string \<Rightarrow> string" where
  "tmpl name vs arms enum2str = print_all
     [ [],
       ''#[derive(Debug)]'',
       ''pub enum '' @ name @ '' {'',
       ''  '' @ vs,
       ''}'',
       [],
       ''impl FromStr for '' @ name @ '' {'',
       ''  type Err = DeserializationError;'',
       [],
       ''  fn from_str(s: &str) -> Result<Self, Self::Err> {'',
       ''    match s {'',
       ''      '' @ arms,
       ''    }'',
       ''  }'',
       ''}'',
       [],
       ''impl ToString for '' @ name @ '' {'',
       ''  fn to_string(&self) -> String {'',
       ''    match &self {'',
       ''      '' @ enum2str,
       ''    }'',
       ''    .to_string()'',
       ''  }'',
       ''}'',
       [],
       ''fromstr_deser!{ '' @ name @ '' }'',
       ''tostr_ser!{ '' @ name @ '' }'' ]"

definition gen_enum_def :: "string \<Rightarrow> string \<Rightarrow> py_error + string" where
  "gen_enum_def enum_name stringy_enum_line =
     (case get_strings stringy_enum_line of
        Inl e \<Rightarrow> Inl e
      | Inr strings \<Rightarrow>
     (case get_variants strings of
        Inl e \<Rightarrow> Inl e
      | Inr vs \<Rightarrow>
     (case get_match_arms strings enum_name of
        Inl e \<Rightarrow> Inl e
      | Inr arms \<Rightarrow>
     (case get_enum2str_match_arms strings enum_name of
        Inl e \<Rightarrow> Inl e
      | Inr enum2str \<Rightarrow> Inr (tmpl enum_name vs arms enum2str)))))"

section \<open>\<^verbatim>\<open>ts_interface_to_rust.py\<close>\<close>

subsection \<open>The patterns of class \<^verbatim>\<open>RE\<close>\<close>

text \<open>The dot of a pattern: every character but the line feed.\<close>

definition any_char :: "char \<Rightarrow> bool" where
  "any_char c = (c \<noteq> nl)"

text \<open>\<^verbatim>\<open>(?P<var>\w+)(?P<opt>\?)?: (?P<type>\w+)(?P<arr>\[\])?,\<close>\<close>

definition FIELD :: regex where
  "FIELD = seqs [Group ''var'' (Plus is_word), Opt (Group ''opt'' (Str ''?'')), Str '': '',
                 Group ''type'' (Plus is_word), Opt (Group ''arr'' (Str ''[]'')), Str '','']"

text \<open>\<^verbatim>\<open>(?<!^)(?=[A-Z])\<close>\<close>

definition SNEK :: regex where
  "SNEK = seqs [NotAtStart, Ahead (Cls is_upper)]"

text \<open>\<^verbatim>\<open>interface (?P<name>\w+)(.+?)? {\<close>\<close>

definition INTERFACE :: regex where
  "INTERFACE = seqs [Str ''interface '', Group ''name'' (Plus is_word),
                     Opt (Group ''2'' (LazyPlus any_char)), Str '' {'']"

text \<open>\<^verbatim>\<open>\s*(?P<var>\w+)(?P<opt>\?)?: (?=.*[|])(?P<variants>['\w |]+);\<close>\<close>

definition variants_char :: "char \<Rightarrow> bool" where
  "variants_char c = (c = CHR 0x27 \<or> is_word c \<or> c = CHR '' '' \<or> c = CHR ''|'')"

definition ENUM :: regex where
  "ENUM = seqs [Star is_space, Group ''var'' (Plus is_word), Opt (Group ''opt'' (Str ''?'')),
                Str '': '', Ahead (seqs [Star any_char, Str ''|'']),
                Group ''variants'' (Plus variants_char), Str '';'']"

text \<open>\<^verbatim>\<open>(event|command): .*\<close>\<close>

definition TYPE_TAG :: regex where
  "TYPE_TAG = seqs [Group ''1'' (Alt (Str ''event'') (Str ''command'')), Str '': '',
                    Star any_char]"

text \<open>
  \<^verbatim>\<open>RM_LINES_WITH = r"  /\*\*", r"  \*/", r"body: {", "};", RE.TYPE_TAG\<close>: a brace
  that opens no repetition is a literal character.
\<close>

definition RM_LINES_WITH :: "regex list" where
  "RM_LINES_WITH = [Str ''  /**'', Str ''  */'', Str ''body: {'', Str ''};'', TYPE_TAG]"

text \<open>
  The table \<^verbatim>\<open>RPL\<close>, in the order of its keys. A replacement is given as the function
  from the groups of the match to the text put in; \<^verbatim>\<open>\g<name>\<close> is the text of group
  \<^verbatim>\<open>name\<close>.
\<close>

definition RPL :: "(regex \<times> (groups \<Rightarrow> string)) list" where
  "RPL =
     [ (Str ''string'', \<lambda>g. ''String''),
       (Str ''boolean'', \<lambda>g. ''bool''),
       (Str ''number'', \<lambda>g. ''i64''),
       (seqs [Star is_space, Str ''* ''], \<lambda>g. ''  /// ''),
       (Str '';'', \<lambda>g. '',''),
       (INTERFACE, \<lambda>g. ''pub struct '' @ text_of (map_of g ''name'') @ '' {'') ]"

subsection \<open>The functions\<close>

definition dict_replace :: "string \<Rightarrow> (regex \<times> (groups \<Rightarrow> string)) list \<Rightarrow> string" where
  "dict_replace in_str rpl_map = foldl (\<lambda>v (pattern, rpl). re_sub pattern rpl v) in_str rpl_map"

definition should_remove :: "string \<Rightarrow> bool" where
  "should_remove line =
     (if strip line = [] then True
      else list_ex (\<lambda>rm_word. re_search rm_word line \<noteq> None) RM_LINES_WITH)"

definition this_is_snek :: "string \<Rightarrow> string" where
  "this_is_snek name = lower (re_sub SNEK (\<lambda>g. ''_'') name)"

definition edit_field_line :: "string \<Rightarrow> string" where
  "edit_field_line line =
     (case re_search FIELD line of
        Some m \<Rightarrow>
          (let varname = this_is_snek (text_of (group m ''var''));
               typename = text_of (group m ''type'');
               is_opt = (group m ''opt'' \<noteq> None);
               is_arr = (group m ''arr'' \<noteq> None);
               typename = (if is_arr then ''Vec<'' @ typename @ ''>'' else typename);
               typename = (if is_opt then ''Option<'' @ typename @ ''>'' else typename)
           in ''  pub '' @ varname @ '': '' @ typename @ '','')
      | None \<Rightarrow> line)"

text \<open>
  A value of type \<^verbatim>\<open>str | None\<close> put into an f-string: \<^verbatim>\<open>None\<close> is formatted as the
  text \<^verbatim>\<open>None\<close>.
\<close>

definition format_opt :: "string option \<Rightarrow> string" where
  "format_opt x = (case x of None \<Rightarrow> ''None'' | Some w \<Rightarrow> w)"

text \<open>
  A \<^verbatim>\<open>dict\<close> keeps its keys in the order in which they were first put in; storing
  under a key that is there already keeps the place of the key and replaces the value.
\<close>

fun dict_set :: "'k \<Rightarrow> 'v \<Rightarrow> ('k \<times> 'v) list \<Rightarrow> ('k \<times> 'v) list" where
  "dict_set k v [] = [(k, v)]"
| "dict_set k v ((k', v') # d) = (if k' = k then (k, v) # d else (k', v') # dict_set k v d)"

text \<open>
  The state of the loop of \<^verbatim>\<open>rewrite_enums\<close>: the dictionary \<^verbatim>\<open>enums\<close>, the variable
  \<^verbatim>\<open>struct_name\<close>, and the list \<^verbatim>\<open>lines\<close>, which the loop updates in place.
\<close>

record extractor =
  enums :: "(string \<times> string) list"
  struct_name :: "string option"
  lines :: "string list"

text \<open>The body of the loop, for the line \<open>line\<close> at index \<open>idx\<close>.\<close>

definition rewrite_line :: "nat \<Rightarrow> string \<Rightarrow> extractor \<Rightarrow> py_error + extractor" where
  "rewrite_line idx line st =
     (case re_match INTERFACE line of
        Some m \<Rightarrow> Inr (st\<lparr>struct_name := group m ''name''\<rparr>)
      | None \<Rightarrow>
     (case re_match ENUM line of
        Some m \<Rightarrow>
          (let varname = text_of (group m ''var'');
               typename = format_opt (struct_name st) @ capitalize varname
           in case gen_enum_def typename (text_of (group m ''variants'')) of
                Inl e \<Rightarrow> Inl e
              | Inr enum_def \<Rightarrow>
                  (let is_opt = (group m ''opt'' \<noteq> None);
                       typename' = (if is_opt then ''Option<'' @ typename @ ''>'' else typename)
                   in Inr (st\<lparr>enums := dict_set typename enum_def (enums st),
                              lines := (lines st)[idx := ''  pub '' @ varname @ '': '' @ typename' @ '';'']\<rparr>)))
      | None \<Rightarrow> Inr st))"

fun rewrite_loop :: "(nat \<times> string) list \<Rightarrow> extractor \<Rightarrow> py_error + extractor" where
  "rewrite_loop [] st = Inr st"
| "rewrite_loop ((idx, line) # rest) st =
     (case rewrite_line idx line st of
        Inl e \<Rightarrow> Inl e
      | Inr st' \<Rightarrow> rewrite_loop rest st')"

text \<open>
  \<^verbatim>\<open>rewrite_enums\<close> returns the dictionary; the caller also sees the list it passed,
  as updated.
\<close>

definition rewrite_enums :: "string list \<Rightarrow> py_error + (string \<times> string) list \<times> string list" where
  "rewrite_enums ls =
     (case rewrite_loop (enumerate 0 ls) \<lparr>enums = [], struct_name = None, lines = ls\<rparr> of
        Inl e \<Rightarrow> Inl e
      | Inr st \<Rightarrow> Inr (enums st, lines st))"

text \<open>
  The driver under \<^verbatim>\<open>__main__\<close>, from the lines of the input file to the list of the
  texts printed, one for each call of \<^verbatim>\<open>print\<close>.
\<close>

definition main :: "string list \<Rightarrow> py_error + string list" where
  "main input_lines =
     (case rewrite_enums input_lines of
        Inl e \<Rightarrow> Inl e
      | Inr (es, ls) \<Rightarrow>
          Inr (map snd es @ [[]] @
               map (\<lambda>line. edit_field_line (dict_replace line RPL))
                 (filter (\<lambda>line. \<not> should_remove line) ls)))"

section \<open>The generated Rust text\<close>

text \<open>
  \<^verbatim>\<open>gen_enum_def\<close> returns the text of a Rust enum with its \<^verbatim>\<open>FromStr\<close> and \<^verbatim>\<open>ToString\<close>
  implementations. What the generated routines do is what that text means to the Rust
  compiler, so the text is read back here, line by line, in the shapes in which
  \<^verbatim>\<open>tmpl\<close> and the three printing functions write it. A text of another shape is not
  read (\<open>None\<close>).
\<close>

definition after_prefix :: "string \<Rightarrow> string \<Rightarrow> string option" where
  "after_prefix p s = (if take (length p) s = p then Some (drop (length p) s) else None)"

text \<open>\<open>cut w s\<close>: the text before and the text after the first occurrence of \<open>w\<close> in \<open>s\<close>.\<close>

fun cut :: "string \<Rightarrow> string \<Rightarrow> (string \<times> string) option" where
  "cut w [] = (if w = [] then Some ([], []) else None)"
| "cut w (c # cs) =
     (if take (length w) (c # cs) = w then Some ([], drop (length w) (c # cs))
      else (case cut w cs of None \<Rightarrow> None | Some (a, b) \<Rightarrow> Some (c # a, b)))"

text \<open>The lines up to the first line that is \<open>l\<close>, and the lines after that line.\<close>

fun until :: "string \<Rightarrow> string list \<Rightarrow> (string list \<times> string list) option" where
  "until l [] = None"
| "until l (x # xs) =
     (if x = l then Some ([], xs)
      else (case until l xs of None \<Rightarrow> None | Some (a, b) \<Rightarrow> Some (x # a, b)))"

definition expect :: "string list \<Rightarrow> string list \<Rightarrow> string list option" where
  "expect ls xs = (if take (length ls) xs = ls then Some (drop (length ls) xs) else None)"

subsection \<open>The enum, as read\<close>

datatype variant =
    UnitVariant string               \<comment> \<open>\<^verbatim>\<open>Name,\<close>\<close>
  | NewtypeVariant string string     \<comment> \<open>\<^verbatim>\<open>Name(Type),\<close>\<close>

datatype from_arm =
    LitArm string string string      \<comment> \<open>\<^verbatim>\<open>"item" => Ok(Enum::Name),\<close>\<close>
  | BindOk string string             \<comment> \<open>\<^verbatim>\<open>other => Ok(Enum::Name(other.to_string()))\<close>, no comma\<close>
  | BindErr string                   \<comment> \<open>\<^verbatim>\<open>other => Err(DeserializationError::StringToEnumParseError
                                         { enum_name: "text".to_string(), value: other.to_string(), }),\<close>\<close>

datatype to_arm =
    UnitArm string string string     \<comment> \<open>\<^verbatim>\<open>Enum::Name => "item",\<close>\<close>
  | NewtypeArm string string         \<comment> \<open>\<^verbatim>\<open>Enum::Name(other) => other\<close>, no comma\<close>

record rust_enum =
  e_name :: string
  e_variants :: "variant list"
  e_from_str :: "from_arm list"
  e_to_string :: "to_arm list"

text \<open>The text of a string literal without escapes.\<close>

definition plain :: "string \<Rightarrow> bool" where
  "plain s = (CHR 0x22 \<notin> set s \<and> CHR 0x5C \<notin> set s)"

definition read_variant :: "string \<Rightarrow> variant option" where
  "read_variant l =
     (case cut '','' l of
        Some (d, []) \<Rightarrow>
          (case cut ''('' d of
             None \<Rightarrow> Some (UnitVariant d)
           | Some (v, r) \<Rightarrow>
               (case cut '')'' r of Some (ty, []) \<Rightarrow> Some (NewtypeVariant v ty) | _ \<Rightarrow> None))
      | _ \<Rightarrow> None)"

fun read_from_arms :: "string list \<Rightarrow> from_arm list option" where
  \<open>read_from_arms [] = Some []\<close>
| \<open>read_from_arms (l # ls) =
     (case after_prefix ''"'' l of
        Some r \<Rightarrow>
          do {
            (item, r) \<leftarrow> cut ''" => Ok('' r;
            (e, r) \<leftarrow> cut ''::'' r;
            (v, r) \<leftarrow> cut ''),'' r;
            arms \<leftarrow> read_from_arms ls;
            if r = [] \<and> plain item then Some (LitArm item e v # arms) else None
          }
      | None \<Rightarrow>
     (case after_prefix ''other => Ok('' l of
        Some r \<Rightarrow>
          do {
            (e, r) \<leftarrow> cut ''::'' r;
            (v, r) \<leftarrow> cut ''(other.to_string()))'' r;
            arms \<leftarrow> read_from_arms ls;
            if r = [] then Some (BindOk e v # arms) else None
          }
      | None \<Rightarrow>
     (if l = ''other => Err(DeserializationError::StringToEnumParseError {''
      then (case ls of
              l2 # l3 # l4 # rest \<Rightarrow>
                do {
                  r \<leftarrow> after_prefix ''enum_name: "'' l2;
                  (n, r) \<leftarrow> cut ''".to_string(),'' r;
                  arms \<leftarrow> read_from_arms rest;
                  if r = [] \<and> plain n \<and> l3 = ''value: other.to_string(),'' \<and> l4 = ''}),''
                  then Some (BindErr n # arms) else None
                }
            | _ \<Rightarrow> None)
      else None)))\<close>

definition read_to_arm :: "string \<Rightarrow> to_arm option" where
  \<open>read_to_arm l =
     do {
       (e, r) \<leftarrow> cut ''::'' l;
       (case cut ''(other) => other'' r of
          Some (v, r) \<Rightarrow> if r = [] then Some (NewtypeArm e v) else None
        | None \<Rightarrow>
            do {
              (v, r) \<leftarrow> cut '' => "'' r;
              (item, r) \<leftarrow> cut ''",'' r;
              if r = [] \<and> plain item then Some (UnitArm e v item) else None
            })
     }\<close>

text \<open>
  The whole text. Rust does not mind the white space around a line, so each line is read
  without it.
\<close>

definition read_enum :: "string \<Rightarrow> rust_enum option" where
  \<open>read_enum text =
     do {
       ls \<leftarrow> expect [[], ''#[derive(Debug)]''] (map strip (split_on nl text));
       (l, ls) \<leftarrow> (case ls of [] \<Rightarrow> None | l # ls \<Rightarrow> Some (l, ls));
       r \<leftarrow> after_prefix ''pub enum '' l;
       (n, r) \<leftarrow> cut '' {'' r;
       (vs, ls) \<leftarrow> until ''}'' ls;
       ls \<leftarrow> expect [[], ''impl FromStr for '' @ n @ '' {'', ''type Err = DeserializationError;'',
                      [], ''fn from_str(s: &str) -> Result<Self, Self::Err> {'', ''match s {''] ls;
       (fs, ls) \<leftarrow> until ''}'' ls;
       ls \<leftarrow> expect [''}'', ''}'', [], ''impl ToString for '' @ n @ '' {'',
                      ''fn to_string(&self) -> String {'', ''match &self {''] ls;
       (ts, ls) \<leftarrow> until ''}'' ls;
       ls \<leftarrow> expect [''.to_string()'', ''}'', ''}'', [], ''fromstr_deser!{ '' @ n @ '' }'',
                      ''tostr_ser!{ '' @ n @ '' }'', []] ls;
       variants \<leftarrow> those (map read_variant vs);
       from_arms \<leftarrow> read_from_arms fs;
       to_arms \<leftarrow> those (map read_to_arm ts);
       if r = [] \<and> ls = []
       then Some \<lparr>e_name = n, e_variants = variants, e_from_str = from_arms, e_to_string = to_arms\<rparr>
       else None
     }\<close>

subsection \<open>What the compiler accepts\<close>

definition rust_keywords :: "string list" where
  "rust_keywords =
     [''as'', ''break'', ''const'', ''continue'', ''crate'', ''else'', ''enum'', ''extern'',
      ''false'', ''fn'', ''for'', ''if'', ''impl'', ''in'', ''let'', ''loop'', ''match'', ''mod'',
      ''move'', ''mut'', ''pub'', ''ref'', ''return'', ''self'', ''Self'', ''static'', ''struct'',
      ''super'', ''trait'', ''true'', ''type'', ''unsafe'', ''use'', ''where'', ''while'',
      ''async'', ''await'', ''dyn'', ''abstract'', ''become'', ''box'', ''do'', ''final'',
      ''macro'', ''override'', ''priv'', ''typeof'', ''unsized'', ''virtual'', ''yield'', ''try'',
      ''gen'']"

definition is_ident :: "string \<Rightarrow> bool" where
  "is_ident s =
     (s \<noteq> [] \<and> list_all is_word s \<and> hd s \<notin> set ascii_digits \<and> s \<noteq> ''_''
      \<and> s \<notin> set rust_keywords)"

fun variant_ident :: "variant \<Rightarrow> string" where
  "variant_ident (UnitVariant v) = v"
| "variant_ident (NewtypeVariant v ty) = v"

fun binds :: "from_arm \<Rightarrow> bool" where
  "binds (LitArm item e v) = False"
| "binds (BindOk e v) = True"
| "binds (BindErr n) = True"

text \<open>
  The compiler accepts the enum as read when
  \<^item> the name of the enum and the names of its variants are identifiers, no two variants
    have the same name, and a variant with a field has a field of type \<^verbatim>\<open>String\<close>;
  \<^item> an arm that is printed without a comma is the last arm of its \<^verbatim>\<open>match\<close>;
  \<^item> every arm names a variant of this enum, of the shape in which the arm uses it;
  \<^item> the \<^verbatim>\<open>match\<close> on the string has an arm that fits every string, and the \<^verbatim>\<open>match\<close> on
    the value has an arm for every variant.
  An arm that can never be reached is accepted (with a warning).
\<close>

fun from_arm_ok :: "rust_enum \<Rightarrow> from_arm \<Rightarrow> bool" where
  "from_arm_ok en (LitArm item e v) = (e = e_name en \<and> UnitVariant v \<in> set (e_variants en))"
| "from_arm_ok en (BindOk e v) = (e = e_name en \<and> NewtypeVariant v ''String'' \<in> set (e_variants en))"
| "from_arm_ok en (BindErr n) = True"

fun to_arm_ok :: "rust_enum \<Rightarrow> to_arm \<Rightarrow> bool" where
  "to_arm_ok en (UnitArm e v item) = (e = e_name en \<and> UnitVariant v \<in> set (e_variants en))"
| "to_arm_ok en (NewtypeArm e v) = (e = e_name en \<and> NewtypeVariant v ''String'' \<in> set (e_variants en))"

fun covered :: "rust_enum \<Rightarrow> variant \<Rightarrow> bool" where
  "covered en (UnitVariant v) =
     list_ex (\<lambda>a. case a of UnitArm e w item \<Rightarrow> w = v | NewtypeArm e w \<Rightarrow> False) (e_to_string en)"
| "covered en (NewtypeVariant v ty) =
     (ty = ''String'' \<and>
      list_ex (\<lambda>a. case a of UnitArm e w item \<Rightarrow> False | NewtypeArm e w \<Rightarrow> w = v) (e_to_string en))"

definition accepted :: "rust_enum \<Rightarrow> bool" where
  "accepted en =
     (is_ident (e_name en)
      \<and> list_all is_ident (map variant_ident (e_variants en))
      \<and> distinct (map variant_ident (e_variants en))
      \<and> list_all (\<lambda>a. case a of BindOk e v \<Rightarrow> False | _ \<Rightarrow> True) (butlast (e_from_str en))
      \<and> list_all (\<lambda>a. case a of NewtypeArm e v \<Rightarrow> False | _ \<Rightarrow> True) (butlast (e_to_string en))
      \<and> list_all (from_arm_ok en) (e_from_str en)
      \<and> list_all (to_arm_ok en) (e_to_string en)
      \<and> list_ex binds (e_from_str en)
      \<and> list_all (covered en) (e_variants en))"

subsection \<open>What the routines compute\<close>

text \<open>
  A value of the enum is a variant of it, with its string if it has a field. A \<^verbatim>\<open>match\<close>
  takes the first arm whose pattern fits: a string literal fits the equal string, the
  identifier \<^verbatim>\<open>other\<close> fits every string, \<^verbatim>\<open>Enum::Name\<close> fits that variant,
  \<^verbatim>\<open>Enum::Name(other)\<close> fits that variant with any string.
\<close>

datatype enum_value = Unit string string | Newtype string string string

datatype deserialization_error = StringToEnumParseError string string

fun match_str :: "from_arm list \<Rightarrow> string \<Rightarrow> (deserialization_error + enum_value) option" where
  "match_str [] s = None"
| "match_str (LitArm item e v # arms) s =
     (if s = item then Some (Inr (Unit e v)) else match_str arms s)"
| "match_str (BindOk e v # arms) s = Some (Inr (Newtype e v s))"
| "match_str (BindErr n # arms) s = Some (Inl (StringToEnumParseError n s))"

fun match_value :: "to_arm list \<Rightarrow> enum_value \<Rightarrow> string option" where
  "match_value [] x = None"
| "match_value (UnitArm e v item # arms) x =
     (if x = Unit e v then Some item else match_value arms x)"
| "match_value (NewtypeArm e v # arms) x =
     (case x of
        Newtype e' v' other \<Rightarrow> if e' = e \<and> v' = v then Some other else match_value arms x
      | Unit e' v' \<Rightarrow> match_value arms x)"

text \<open>
  \<^verbatim>\<open>from_str\<close> and \<^verbatim>\<open>to_string\<close> of a generated text; \<open>None\<close> where the text is not read or
  the compiler does not accept it: then there are no routines.
\<close>

definition from_str :: "string \<Rightarrow> string \<Rightarrow> (deserialization_error + enum_value) option" where
  "from_str text s =
     (case read_enum text of
        None \<Rightarrow> None
      | Some en \<Rightarrow> if accepted en then match_str (e_from_str en) s else None)"

definition to_string :: "string \<Rightarrow> enum_value \<Rightarrow> string option" where
  "to_string text x =
     (case read_enum text of
        None \<Rightarrow> None
      | Some en \<Rightarrow> if accepted en then match_value (e_to_string en) x else None)"

section \<open>Notions used in the statements\<close>

text \<open>
  A pattern without \<^verbatim>\<open>(?<!^)\<close> matches at a position according to the text that
  follows the position only.
\<close>

primrec anchor_free :: "regex \<Rightarrow> bool" where
  "anchor_free (Str w) = True"
| "anchor_free (Cls p) = True"
| "anchor_free (Seq a b) = (anchor_free a \<and> anchor_free b)"
| "anchor_free (Alt a b) = (anchor_free a \<and> anchor_free b)"
| "anchor_free (Opt a) = anchor_free a"
| "anchor_free (Star p) = True"
| "anchor_free (Plus p) = True"
| "anchor_free (LazyPlus p) = True"
| "anchor_free (Group n a) = anchor_free a"
| "anchor_free (Ahead a) = anchor_free a"
| "anchor_free NotAtStart = False"

text \<open>The groups of a pattern that take part in every match of it.\<close>

primrec sure_groups :: "regex \<Rightarrow> string set" where
  "sure_groups (Str w) = {}"
| "sure_groups (Cls p) = {}"
| "sure_groups (Seq a b) = sure_groups a \<union> sure_groups b"
| "sure_groups (Alt a b) = sure_groups a \<inter> sure_groups b"
| "sure_groups (Opt a) = {}"
| "sure_groups (Star p) = {}"
| "sure_groups (Plus p) = {}"
| "sure_groups (LazyPlus p) = {}"
| "sure_groups (Group n a) = insert n (sure_groups a)"
| "sure_groups (Ahead a) = sure_groups a"
| "sure_groups NotAtStart = {}"

text \<open>A match one position further to the right.\<close>

definition shift :: "match_object \<Rightarrow> match_object" where
  "shift m = m\<lparr>m_start := Suc (m_start m), m_end := Suc (m_end m)\<rparr>"

text \<open>The first maximal run of word characters of a string.\<close>

definition first_word :: "string \<Rightarrow> string" where
  "first_word s = takeWhile is_word (dropWhile (\<lambda>c. \<not> is_word c) s)"


text \<open>The name of the variant of a token: the token with its first character in upper case.\<close>

definition variant_name :: "string \<Rightarrow> string" where
  "variant_name t = upper_char (hd t) # tl t"

text \<open>
  A name with the separator \<^verbatim>\<open>_\<close> put before every upper-case letter that is not its
  first character.
\<close>

definition sep_upper :: "char \<Rightarrow> string" where
  "sep_upper x = (if is_upper x then [CHR ''_'', x] else [x])"

fun underscored :: "string \<Rightarrow> string" where
  "underscored [] = []"
| "underscored (c # cs) = c # concat (map sep_upper cs)"

text \<open>
  The interface that encloses what follows the lines \<open>ls\<close>: the name taken from the last
  of them that \<^verbatim>\<open>RE.INTERFACE\<close> matches, or \<open>sn\<close> if there is none.
\<close>

fun current_struct :: "string option \<Rightarrow> string list \<Rightarrow> string option" where
  "current_struct sn [] = sn"
| "current_struct sn (line # rest) =
     current_struct (case re_match INTERFACE line of Some m \<Rightarrow> group m ''name'' | None \<Rightarrow> sn) rest"

text \<open>
  For a field line that \<^verbatim>\<open>RE.ENUM\<close> matches with \<open>m\<close>, inside \<open>sn\<close>: the name of its enum,
  and the line that takes its place.
\<close>

definition typename_of :: "string option \<Rightarrow> match_object \<Rightarrow> string" where
  "typename_of sn m = format_opt sn @ capitalize (text_of (group m ''var''))"

definition enum_field_line :: "string option \<Rightarrow> match_object \<Rightarrow> string" where
  "enum_field_line sn m =
     ''  pub '' @ text_of (group m ''var'') @ '': '' @
     (if group m ''opt'' \<noteq> None then ''Option<'' @ typename_of sn m @ ''>'' else typename_of sn m) @ '';''"

text \<open>
  The union-typed fields of the lines, in the order of the lines: for each the name of
  its enum and its union expression.
\<close>

fun union_fields :: "string option \<Rightarrow> string list \<Rightarrow> (string \<times> string) list" where
  "union_fields sn [] = []"
| "union_fields sn (line # rest) =
     (case re_match INTERFACE line of
        Some m \<Rightarrow> union_fields (group m ''name'') rest
      | None \<Rightarrow>
          (case re_match ENUM line of
             Some m \<Rightarrow>
               (typename_of sn m, text_of (group m ''variants'')) # union_fields sn rest
           | None \<Rightarrow> union_fields sn rest))"

text \<open>Storing pairs into a dictionary, one after the other.\<close>

definition store_all :: "(string \<times> string) list \<Rightarrow> (string \<times> string) list \<Rightarrow> (string \<times> string) list" where
  "store_all d kvs = foldl (\<lambda>d (k, v). dict_set k v d) d kvs"

text \<open>
  The literals that a union expression lists, as the source notation has them: the
  members between the separators \<^verbatim>\<open>|\<close>, each without the white space around it and
  without its quotes.
\<close>

definition unquote :: "string \<Rightarrow> string" where
  "unquote s =
     (case strip s of
        [] \<Rightarrow> []
      | c # cs \<Rightarrow> if c = CHR 0x27 \<and> cs \<noteq> [] \<and> last cs = CHR 0x27 then butlast cs else c # cs)"

definition listed_literals :: "string \<Rightarrow> string list" where
  "listed_literals expr = map unquote (split_on CHR ''|'' expr)"

text \<open>
  The routines that \<^verbatim>\<open>gen_enum_def enum_name expr\<close> generates, applied to a string and to a
  value of the enum: \<open>None\<close> where the generator raises or the text that it returns has no
  routines.
\<close>

definition parse :: "string \<Rightarrow> string \<Rightarrow> string \<Rightarrow> (deserialization_error + enum_value) option" where
  "parse enum_name expr s =
     (case gen_enum_def enum_name expr of Inl e \<Rightarrow> None | Inr text \<Rightarrow> from_str text s)"

definition unparse :: "string \<Rightarrow> string \<Rightarrow> enum_value \<Rightarrow> string option" where
  "unparse enum_name expr x =
     (case gen_enum_def enum_name expr of Inl e \<Rightarrow> None | Inr text \<Rightarrow> to_string text x)"

section \<open>Lemmas on the matcher and on the enum generator\<close>

lemma rmatch_Cons:
  "anchor_free r \<Longrightarrow>
   rmatch r (c # s) (Suc i) g = map (\<lambda>(j, h). (Suc j, h)) (rmatch r s i g)"
proof (induction r arbitrary: i g)
  case (Seq a b)
  then show ?case
    by (simp add: map_concat o_def split_def cong: map_cong)
next
  case (Group n a)
  then show ?case by (simp add: o_def split_def)
next
  case (Ahead a)
  then show ?case by (simp split: list.splits)
qed (simp_all add: run_def o_def)

lemma first_match_Cons:
  "anchor_free r \<Longrightarrow>
   first_match r (c # s) (map Suc ps) = map_option shift (first_match r s ps)"
  by (induction ps) (auto simp: rmatch_Cons shift_def split: list.splits)

lemma re_search_Cons:
  assumes "anchor_free r"
  shows "re_search r (c # s) =
    (case rmatch r (c # s) 0 [] of
       [] \<Rightarrow> map_option shift (re_search r s)
     | (j, g) # _ \<Rightarrow> Some \<lparr>m_start = 0, m_end = j, m_groups = g\<rparr>)"
proof -
  have "[0..<Suc (length (c # s))] = 0 # map Suc [0..<Suc (length s)]"
    by (simp add: upt_conv_Cons map_Suc_upt del: upt_Suc)
  then have "re_search r (c # s) = first_match r (c # s) (0 # map Suc [0..<Suc (length s)])"
    by (simp only: re_search_def)
  also have "\<dots> = (case rmatch r (c # s) 0 [] of
       [] \<Rightarrow> first_match r (c # s) (map Suc [0..<Suc (length s)])
     | (j, g) # _ \<Rightarrow> Some \<lparr>m_start = 0, m_end = j, m_groups = g\<rparr>)"
    by (simp only: first_match.simps)
  finally show ?thesis
    by (simp only: first_match_Cons [OF assms] re_search_def)
qed

lemma rmatch_Plus:
  "rmatch (Plus p) s i g =
     (if run p s i = 0 then []
      else (i + run p s i, g) # map (\<lambda>n. (i + n, g)) (rev [1..<run p s i]))"
  by simp

lemma run_Cons_0: "run p (c # s) 0 = (if p c then Suc (run p s 0) else 0)"
  by (simp add: run_def)

lemma run_Cons_Suc: "run p (c # s) (Suc i) = run p s i"
  by (simp add: run_def)

lemma take_run: "take (run p s 0) s = takeWhile p s"
  by (simp add: run_def takeWhile_eq_take [symmetric])

lemma quote_not_word: "\<not> is_word (CHR 0x27)"
  by (simp add: is_word_def ascii_lowercase_def ascii_uppercase_def ascii_digits_def)

lemma anchor_free_TOKEN: "anchor_free TOKEN"
  by (simp add: TOKEN_def)

lemma get_string_Nil: "get_string [] = Inl AttributeError"
  by (simp add: get_string_def re_search_def TOKEN_def run_def)

lemma rmatch_TOKEN_word:
  "is_word c \<Longrightarrow> \<exists>j rest. rmatch TOKEN (c # s) 0 [] = (j, [(''1'', takeWhile is_word (c # s))]) # rest"
  using quote_not_word take_run [of is_word "c # s"]
  by (auto simp: TOKEN_def rmatch_Plus run_Cons_0 simp del: rmatch.simps(7))

lemma rmatch_TOKEN_quote:
  "is_word d \<Longrightarrow>
   \<exists>j rest. rmatch TOKEN (CHR 0x27 # d # s) 0 [] = (j, [(''1'', takeWhile is_word (d # s))]) # rest"
  using quote_not_word take_run [of is_word "d # s"]
  by (auto simp: TOKEN_def rmatch_Plus run_Cons_0 run_Cons_Suc simp del: rmatch.simps(7))

lemma rmatch_TOKEN_none:
  "\<not> is_word c \<Longrightarrow> (c = CHR 0x27 \<Longrightarrow> s = [] \<or> \<not> is_word (hd s)) \<Longrightarrow>
   rmatch TOKEN (c # s) 0 [] = []"
  by (cases s) (auto simp: TOKEN_def rmatch_Plus run_Cons_0 run_Cons_Suc run_def simp del: rmatch.simps(7))

lemma get_string_Cons:
  "get_string (c # s) =
     (if is_word c then Inr (takeWhile is_word (c # s))
      else if c = CHR 0x27 \<and> s \<noteq> [] \<and> is_word (hd s) then Inr (takeWhile is_word s)
      else get_string s)"
proof -
  consider (word) "is_word c"
    | (quote) d t where "\<not> is_word c" "c = CHR 0x27" "s = d # t" "is_word d"
    | (none) "\<not> is_word c" "c = CHR 0x27 \<Longrightarrow> s = [] \<or> \<not> is_word (hd s)"
    by (cases s) auto
  then show ?thesis
  proof cases
    case word
    then show ?thesis
      using rmatch_TOKEN_word [of c s]
      by (auto simp: get_string_def re_search_Cons anchor_free_TOKEN group_def text_of_def)
  next
    case quote
    then show ?thesis
      using rmatch_TOKEN_quote [of d t]
      by (auto simp: get_string_def re_search_Cons anchor_free_TOKEN group_def text_of_def)
  next
    case none
    then have "rmatch TOKEN (c # s) 0 [] = []"
      by (rule rmatch_TOKEN_none)
    then have "get_string (c # s) = get_string s"
      by (auto simp: get_string_def re_search_Cons anchor_free_TOKEN group_def shift_def
          split: option.splits)
    with none show ?thesis by auto
  qed
qed

lemma get_string_eq:
  "get_string s =
     (if \<exists>c\<in>set s. is_word c then Inr (first_word s) else Inl AttributeError)"
proof (induction s)
  case Nil
  then show ?case by (simp add: get_string_Nil)
next
  case (Cons c s)
  show ?case
  proof (cases "is_word c")
    case True
    then show ?thesis by (simp add: get_string_Cons first_word_def)
  next
    case False
    show ?thesis
    proof (cases "c = CHR 0x27 \<and> s \<noteq> [] \<and> is_word (hd s)")
      case True
      then obtain d t where "s = d # t" "is_word d" by (cases s) auto
      with False True show ?thesis by (simp add: get_string_Cons first_word_def)
    next
      case no: False
      then have "get_string (c # s) = get_string s"
        using False by (auto simp: get_string_Cons)
      with Cons False show ?thesis by (simp add: first_word_def)
    qed
  qed
qed

lemma traverse_Inr:
  "traverse f xs = Inr ys \<Longrightarrow> list_all2 (\<lambda>x y. f x = Inr y) xs ys"
  by (induction xs arbitrary: ys) (auto split: sum.splits)

lemma traverse_Inl:
  "traverse f xs = Inl e \<Longrightarrow> \<exists>x\<in>set xs. f x = Inl e"
  by (induction xs) (auto split: sum.splits)

lemma traverse_total:
  "(\<And>x. x \<in> set xs \<Longrightarrow> f x = Inr (h x)) \<Longrightarrow> traverse f xs = Inr (map h xs)"
  by (induction xs) auto

lemma get_strings_eq:
  "get_strings line =
     (if \<forall>seg\<in>set (split_on CHR ''|'' line). \<exists>c\<in>set seg. is_word c
      then Inr (map first_word (split_on CHR ''|'' line))
      else Inl AttributeError)"
proof (cases "\<forall>seg\<in>set (split_on CHR ''|'' line). \<exists>c\<in>set seg. is_word c")
  case True
  then have "traverse get_string (split_on CHR ''|'' line) = Inr (map first_word (split_on CHR ''|'' line))"
    by (intro traverse_total) (simp add: get_string_eq)
  with True show ?thesis by (simp add: get_strings_def)
next
  case False
  then obtain seg where seg: "seg \<in> set (split_on CHR ''|'' line)" "get_string seg = Inl AttributeError"
    by (auto simp: get_string_eq)
  have "get_strings line = Inl AttributeError"
  proof (cases "get_strings line")
    case (Inl e)
    then obtain x where "get_string x = Inl e"
      unfolding get_strings_def by (blast dest: traverse_Inl)
    then have "e = AttributeError" by (simp add: get_string_eq split: if_splits)
    with Inl show ?thesis by simp
  next
    case (Inr ys)
    then have "list_all2 (\<lambda>x y. get_string x = Inr y) (split_on CHR ''|'' line) ys"
      by (simp add: get_strings_def traverse_Inr)
    with seg(1) obtain y where "get_string seg = Inr y"
      by (auto simp: list_all2_conv_all_nth in_set_conv_nth)
    with seg(2) show ?thesis by simp
  qed
  with False show ?thesis by simp
qed



lemma split_on_absent: "sep \<notin> set s \<Longrightarrow> split_on sep s = [s]"
  by (induction s) (auto simp: Let_def)





section \<open>Lemmas on the line filter and on field names\<close>

lemma take_eq_prefix: "take (length w) s = w \<longleftrightarrow> prefix w s"
proof
  assume "take (length w) s = w"
  then have "s = w @ drop (length w) s" by (metis append_take_drop_id)
  then show "prefix w s" by (metis prefixI)
next
  assume "prefix w s"
  then show "take (length w) s = w" by (auto simp: prefix_def)
qed

lemma re_search_suffix:
  assumes "anchor_free r"
  shows "re_search r s \<noteq> None \<longleftrightarrow> (\<exists>t. suffix t s \<and> rmatch r t 0 [] \<noteq> [])"
proof (induction s)
  case Nil
  show ?case by (auto simp: re_search_def split: list.splits)
next
  case (Cons c s)
  have "re_search r (c # s) \<noteq> None \<longleftrightarrow> rmatch r (c # s) 0 [] \<noteq> [] \<or> re_search r s \<noteq> None"
    by (auto simp: re_search_Cons [OF assms] split: list.splits)
  with Cons show ?case by (auto simp: suffix_Cons)
qed

lemma re_search_Str: "(re_search (Str w) s \<noteq> None) = sublist w s"
proof -
  have "(re_search (Str w) s \<noteq> None) = (\<exists>t. suffix t s \<and> rmatch (Str w) t 0 [] \<noteq> [])"
    by (rule re_search_suffix) simp
  also have "\<dots> = (\<exists>t. suffix t s \<and> prefix w t)"
    by (auto simp: take_eq_prefix)
  also have "\<dots> = sublist w s"
    by (simp add: sublist_altdef')
  finally show ?thesis .
qed

lemma prefix_append_take:
  "prefix (a @ b) t \<longleftrightarrow> take (length a) t = a \<and> take (length b) (drop (length a) t) = b"
proof
  assume "prefix (a @ b) t"
  then show "take (length a) t = a \<and> take (length b) (drop (length a) t) = b"
    by (auto simp: prefix_def)
next
  assume "take (length a) t = a \<and> take (length b) (drop (length a) t) = b"
  then have "t = a @ drop (length a) t" "drop (length a) t = b @ drop (length b) (drop (length a) t)"
    by (metis append_take_drop_id)+
  then have "t = (a @ b) @ drop (length b) (drop (length a) t)"
    by simp
  then show "prefix (a @ b) t" by (rule prefixI)
qed

lemma rmatch_TYPE_TAG:
  "(rmatch TYPE_TAG t 0 [] \<noteq> []) = (prefix ''event: '' t \<or> prefix ''command: '' t)"
  using prefix_append_take [of "''event''" "'': ''" t] prefix_append_take [of "''command''" "'': ''" t]
  by (auto simp: TYPE_TAG_def)

lemma re_search_TYPE_TAG:
  "(re_search TYPE_TAG s \<noteq> None) = (sublist ''event: '' s \<or> sublist ''command: '' s)"
proof -
  have "(re_search TYPE_TAG s \<noteq> None) = (\<exists>t. suffix t s \<and> rmatch TYPE_TAG t 0 [] \<noteq> [])"
    by (rule re_search_suffix) (simp add: TYPE_TAG_def)
  also have "\<dots> = (\<exists>t. suffix t s \<and> (prefix ''event: '' t \<or> prefix ''command: '' t))"
    by (simp only: rmatch_TYPE_TAG)
  also have "\<dots> = (sublist ''event: '' s \<or> sublist ''command: '' s)"
    unfolding sublist_altdef' by blast
  finally show ?thesis .
qed

lemma strip_empty: "strip s = [] \<longleftrightarrow> (\<forall>c\<in>set s. is_space c)"
proof -
  have "strip s = [] \<longleftrightarrow> (\<forall>c\<in>set (dropWhile is_space s). is_space c)"
    by (simp add: strip_def)
  also have "\<dots> \<longleftrightarrow> (\<forall>c\<in>set s. is_space c)"
    by (induction s) auto
  finally show ?thesis .
qed

lemma rmatch_SNEK:
  "rmatch SNEK s p g = (if 0 < p \<and> p < length s \<and> is_upper (s ! p) then [(p, g)] else [])"
  by (simp add: SNEK_def)

lemma sub_from_SNEK:
  assumes "0 < p" "p \<le> length s"
  shows "sub_from SNEK (\<lambda>g. ''_'') s p adv =
     (if adv then (case drop p s of [] \<Rightarrow> [] | x # xs \<Rightarrow> x # concat (map sep_upper xs))
      else concat (map sep_upper (drop p s)))"
  using assms
proof (induction "2 * (length s - p) + (if adv then 0 else 1)" arbitrary: p adv rule: less_induct)
  case less
  show ?case
  proof (cases "p < length s")
    case False
    with less.prems have "p = length s" by simp
    then show ?thesis
      by (subst sub_from.simps) (simp add: rmatch_SNEK)
  next
    case True
    then have dr: "drop p s = s ! p # drop (Suc p) s"
      by (simp add: Cons_nth_drop_Suc)
    have next_pos: "sub_from SNEK (\<lambda>g. ''_'') s (Suc p) False = concat (map sep_upper (drop (Suc p) s))"
      using less.hyps [of "Suc p" False] True by simp
    show ?thesis
    proof (cases "is_upper (s ! p)")
      case no: False
      then show ?thesis
        using True less.prems next_pos
        by (subst sub_from.simps) (simp add: rmatch_SNEK dr sep_upper_def)
    next
      case up: True
      show ?thesis
      proof (cases adv)
        case adv: True
        then show ?thesis
          using True less.prems next_pos up
          by (subst sub_from.simps) (simp add: rmatch_SNEK dr)
      next
        case noadv: False
        have "sub_from SNEK (\<lambda>g. ''_'') s p True = s ! p # concat (map sep_upper (drop (Suc p) s))"
          using less.hyps [of p True] less.prems noadv by (simp add: dr)
        then show ?thesis
          using True less.prems up noadv
          by (subst sub_from.simps) (simp add: rmatch_SNEK dr sep_upper_def)
      qed
    qed
  qed
qed

lemma re_sub_SNEK: "re_sub SNEK (\<lambda>g. ''_'') s = underscored s"
proof (cases s)
  case Nil
  then show ?thesis
    unfolding re_sub_def by (subst sub_from.simps) (simp add: rmatch_SNEK)
next
  case (Cons c cs)
  have "sub_from SNEK (\<lambda>g. ''_'') s (Suc 0) False = concat (map sep_upper (drop (Suc 0) s))"
    using sub_from_SNEK [of "Suc 0" s False] Cons by simp
  then show ?thesis
    unfolding re_sub_def using Cons
    by (subst sub_from.simps) (simp add: rmatch_SNEK)
qed

lemma lower_char_id: "\<not> is_upper c \<Longrightarrow> lower_char c = c"
proof -
  assume "\<not> is_upper c"
  then have "map_of (zip ascii_uppercase ascii_lowercase) c = None"
    by (simp add: is_upper_def map_of_eq_None_iff ascii_uppercase_def ascii_lowercase_def)
  then show ?thesis by (simp add: lower_char_def)
qed

lemma underscored_id: "\<forall>c\<in>set s. \<not> is_upper c \<Longrightarrow> underscored s = s"
proof (cases s)
  case Nil
  then show ?thesis by simp
next
  case (Cons c cs)
  assume "\<forall>c\<in>set s. \<not> is_upper c"
  with Cons have "concat (map sep_upper cs) = cs"
    by (induction cs arbitrary: s c) (auto simp: sep_upper_def)
  with Cons show ?thesis by simp
qed

section \<open>Lemmas on the loop of the extractor\<close>

lemma rewrite_loop_append:
  "rewrite_loop (a @ b) st =
     (case rewrite_loop a st of Inl e \<Rightarrow> Inl e | Inr st1 \<Rightarrow> rewrite_loop b st1)"
  by (induction a arbitrary: st) (auto split: sum.splits)

lemma rewrite_line_cases:
  assumes "rewrite_line idx line st = Inr st'"
  obtains (interface) m where "re_match INTERFACE line = Some m"
      "struct_name st' = group m ''name''" "enums st' = enums st" "lines st' = lines st"
    | (union) m enum_def where "re_match INTERFACE line = None" "re_match ENUM line = Some m"
      "gen_enum_def (typename_of (struct_name st) m) (text_of (group m ''variants'')) = Inr enum_def"
      "struct_name st' = struct_name st"
      "enums st' = dict_set (typename_of (struct_name st) m) enum_def (enums st)"
      "lines st' = (lines st)[idx := enum_field_line (struct_name st) m]"
    | (other) "re_match INTERFACE line = None" "re_match ENUM line = None" "st' = st"
proof (cases "re_match INTERFACE line")
  case (Some m)
  with assms have "st' = st\<lparr>struct_name := group m ''name''\<rparr>"
    by (simp add: rewrite_line_def)
  then show ?thesis using Some by (intro interface [of m]) simp_all
next
  case None
  show ?thesis
  proof (cases "re_match ENUM line")
    case no: None
    with None assms have "st' = st" by (simp add: rewrite_line_def)
    with None no show ?thesis by (rule other)
  next
    case (Some m)
    show ?thesis
    proof (cases "gen_enum_def (typename_of (struct_name st) m) (text_of (group m ''variants''))")
      case (Inl e)
      with None Some assms show ?thesis
        by (simp add: rewrite_line_def typename_of_def Let_def)
    next
      case (Inr enum_def)
      with None Some assms have "st' = st\<lparr>enums := dict_set (typename_of (struct_name st) m) enum_def (enums st),
          lines := (lines st)[idx := enum_field_line (struct_name st) m]\<rparr>"
        by (auto simp: rewrite_line_def typename_of_def enum_field_line_def Let_def)
      then show ?thesis
        using None Some Inr by (intro union [of m enum_def]) simp_all
    qed
  qed
qed

lemma dict_set_keys: "fst ` set (dict_set k v d) = insert k (fst ` set d)"
  by (induction d) force+

lemma dict_set_fresh: "k \<notin> fst ` set d \<Longrightarrow> dict_set k v d = d @ [(k, v)]"
  by (induction d) auto

lemma store_all_distinct:
  "distinct (map fst kvs) \<Longrightarrow> fst ` set d \<inter> fst ` set kvs = {} \<Longrightarrow> store_all d kvs = d @ kvs"
proof (induction kvs arbitrary: d)
  case Nil
  then show ?case by (simp add: store_all_def)
next
  case (Cons kv kvs)
  obtain k v where kv: "kv = (k, v)" by (cases kv)
  with Cons.prems have fresh: "k \<notin> fst ` set d" and rest: "k \<notin> fst ` set kvs"
    and disj: "fst ` set d \<inter> fst ` set kvs = {}" and dist: "distinct (map fst kvs)"
    by auto
  have "store_all d (kv # kvs) = store_all (dict_set k v d) kvs"
    by (simp add: store_all_def kv)
  also have "\<dots> = dict_set k v d @ kvs"
  proof (rule Cons.IH [OF dist])
    show "fst ` set (dict_set k v d) \<inter> fst ` set kvs = {}"
      unfolding dict_set_keys using rest disj by blast
  qed
  finally show ?case by (simp add: dict_set_fresh [OF fresh] kv)
qed

lemma rewrite_loop_Cons:
  assumes "rewrite_loop (enumerate k (line # rest)) st = Inr st'"
  obtains st1 where "rewrite_line k line st = Inr st1"
    "rewrite_loop (enumerate (Suc k) rest) st1 = Inr st'"
  using assms by (auto split: sum.splits)

lemma rewrite_loop_struct_name:
  "rewrite_loop (enumerate k xs) st = Inr st' \<Longrightarrow>
   struct_name st' = current_struct (struct_name st) xs"
proof (induction xs arbitrary: k st)
  case Nil
  then show ?case by simp
next
  case (Cons line rest)
  from Cons.prems obtain st1 where step: "rewrite_line k line st = Inr st1"
    and loop: "rewrite_loop (enumerate (Suc k) rest) st1 = Inr st'"
    by (rule rewrite_loop_Cons)
  from step show ?case
    by (cases rule: rewrite_line_cases) (simp_all add: Cons.IH [OF loop])
qed

lemma rewrite_loop_lines:
  "rewrite_loop (enumerate k xs) st = Inr st' \<Longrightarrow>
   length (lines st') = length (lines st) \<and> (\<forall>j<k. lines st' ! j = lines st ! j)"
proof (induction xs arbitrary: k st)
  case Nil
  then show ?case by simp
next
  case (Cons line rest)
  from Cons.prems obtain st1 where step: "rewrite_line k line st = Inr st1"
    and loop: "rewrite_loop (enumerate (Suc k) rest) st1 = Inr st'"
    by (rule rewrite_loop_Cons)
  from step show ?case
    by (cases rule: rewrite_line_cases) (use Cons.IH [OF loop] in simp_all)
qed

lemma rewrite_loop_keys:
  "rewrite_loop (enumerate k xs) st = Inr st' \<Longrightarrow>
   fst ` set (enums st) \<subseteq> fst ` set (enums st')"
proof (induction xs arbitrary: k st)
  case Nil
  then show ?case by simp
next
  case (Cons line rest)
  from Cons.prems obtain st1 where step: "rewrite_line k line st = Inr st1"
    and loop: "rewrite_loop (enumerate (Suc k) rest) st1 = Inr st'"
    by (rule rewrite_loop_Cons)
  from step show ?case
  proof (cases rule: rewrite_line_cases)
    case (union m enum_def)
    then have "fst ` set (enums st) \<subseteq> fst ` set (enums st1)"
      by (auto simp: dict_set_keys)
    with Cons.IH [OF loop] show ?thesis by blast
  qed (use Cons.IH [OF loop] in simp_all)
qed

lemma rewrite_loop_enums:
  "rewrite_loop (enumerate k xs) st = Inr st' \<Longrightarrow>
   \<exists>defs. traverse (\<lambda>(name, expr). gen_enum_def name expr) (union_fields (struct_name st) xs) = Inr defs
     \<and> enums st' = store_all (enums st) (zip (map fst (union_fields (struct_name st) xs)) defs)"
proof (induction xs arbitrary: k st)
  case Nil
  then show ?case by (simp add: store_all_def)
next
  case (Cons line rest)
  from Cons.prems obtain st1 where step: "rewrite_line k line st = Inr st1"
    and loop: "rewrite_loop (enumerate (Suc k) rest) st1 = Inr st'"
    by (rule rewrite_loop_Cons)
  from Cons.IH [OF loop] obtain defs where defs:
    "traverse (\<lambda>(name, expr). gen_enum_def name expr) (union_fields (struct_name st1) rest) = Inr defs"
    "enums st' = store_all (enums st1) (zip (map fst (union_fields (struct_name st1) rest)) defs)"
    by blast
  from step show ?case
  proof (cases rule: rewrite_line_cases)
    case (interface m)
    with defs show ?thesis by simp
  next
    case (union m enum_def)
    have "traverse (\<lambda>(name, expr). gen_enum_def name expr) (union_fields (struct_name st) (line # rest))
        = Inr (enum_def # defs)"
      using union defs(1) by simp
    moreover have "enums st' = store_all (enums st)
        (zip (map fst (union_fields (struct_name st) (line # rest))) (enum_def # defs))"
      using union defs(2) by (simp add: store_all_def)
    ultimately show ?thesis by blast
  next
    case other
    with defs show ?thesis by simp
  qed
qed




lemma traverse_length: "traverse f xs = Inr ys \<Longrightarrow> length ys = length xs"
  by (drule traverse_Inr) (simp add: list_all2_lengthD)


lemma lower_char_not_upper: "\<not> is_upper (lower_char c)"
proof (cases "is_upper c")
  case True
  then show ?thesis
    by (auto simp: is_upper_def lower_char_def ascii_uppercase_def ascii_lowercase_def)
next
  case False
  then show ?thesis by (simp add: lower_char_id)
qed

lemma rewrite_enums_field:
  assumes ok: "rewrite_enums ls = Inr (es, ls')" and i: "i < length ls"
    and ni: "re_match INTERFACE (ls ! i) = None" and en: "re_match ENUM (ls ! i) = Some m"
  shows "typename_of (current_struct None (take i ls)) m \<in> fst ` set es
       \<and> ls' ! i = enum_field_line (current_struct None (take i ls)) m"
proof -
  define init where "init = \<lparr>enums = [], struct_name = None, lines = ls\<rparr>"
  from ok obtain st' where run: "rewrite_loop (enumerate 0 ls) init = Inr st'"
    and res: "es = enums st'" "ls' = lines st'"
    by (auto simp: rewrite_enums_def init_def split: sum.splits)
  have "ls = take i ls @ ls ! i # drop (Suc i) ls"
    using i by (simp add: id_take_nth_drop)
  then have "enumerate 0 ls = enumerate 0 (take i ls) @ enumerate i (ls ! i # drop (Suc i) ls)"
    using i by (metis enumerate_append_eq add_0 length_take min.absorb2 less_imp_le)
  with run obtain st1 where pre: "rewrite_loop (enumerate 0 (take i ls)) init = Inr st1"
    and post: "rewrite_loop (enumerate i (ls ! i # drop (Suc i) ls)) st1 = Inr st'"
    by (auto simp: rewrite_loop_append split: sum.splits)
  from post obtain st2 where step: "rewrite_line i (ls ! i) st1 = Inr st2"
    and rest: "rewrite_loop (enumerate (Suc i) (drop (Suc i) ls)) st2 = Inr st'"
    by (rule rewrite_loop_Cons)
  have sn: "struct_name st1 = current_struct None (take i ls)"
    using rewrite_loop_struct_name [OF pre] by (simp add: init_def)
  have len: "length (lines st1) = length ls"
    using rewrite_loop_lines [OF pre] by (simp add: init_def)
  from step show ?thesis
  proof (cases rule: rewrite_line_cases)
    case (interface m')
    with ni show ?thesis by simp
  next
    case (union m' enum_def)
    with en have m: "m' = m" by simp
    have "typename_of (struct_name st1) m \<in> fst ` set (enums st2)"
      using union(5) m by (simp add: dict_set_keys)
    then have "typename_of (struct_name st1) m \<in> fst ` set (enums st')"
      using rewrite_loop_keys [OF rest] by blast
    moreover have "lines st' ! i = lines st2 ! i"
      using rewrite_loop_lines [OF rest] by simp
    then have "lines st' ! i = enum_field_line (struct_name st1) m"
      using union(6) m i len by simp
    ultimately show ?thesis by (simp add: res sn)
  next
    case other
    with en show ?thesis by simp
  qed
qed

section \<open>Lemmas on the groups of a match\<close>

text \<open>
  The groups whose text the two scripts use without a test take part in every match:
  \<open>text_of\<close> is never applied to \<open>None\<close>.
\<close>

lemma rmatch_groups:
  "(j, h) \<in> set (rmatch r s i g) \<Longrightarrow>
   dom (map_of g) \<union> sure_groups r \<subseteq> dom (map_of h)"
proof (induction r arbitrary: i g j h)
  case (Str w)
  then have "h = g" by (simp split: if_splits)
  then show ?case by simp
next
  case (Cls p)
  then have "h = g" by (simp split: if_splits)
  then show ?case by simp
next
  case (Seq a b)
  then obtain k f where first: "(k, f) \<in> set (rmatch a s i g)"
    and second: "(j, h) \<in> set (rmatch b s k f)"
    by auto
  have "dom (map_of g) \<union> sure_groups a \<subseteq> dom (map_of f)"
    using first by (rule Seq.IH(1))
  moreover have "dom (map_of f) \<union> sure_groups b \<subseteq> dom (map_of h)"
    using second by (rule Seq.IH(2))
  ultimately show ?case
    unfolding sure_groups.simps by blast
next
  case (Alt a b)
  then have "(j, h) \<in> set (rmatch a s i g) \<or> (j, h) \<in> set (rmatch b s i g)"
    by simp
  then show ?case
  proof
    assume "(j, h) \<in> set (rmatch a s i g)"
    then have "dom (map_of g) \<union> sure_groups a \<subseteq> dom (map_of h)" by (rule Alt.IH(1))
    then show ?thesis unfolding sure_groups.simps by blast
  next
    assume "(j, h) \<in> set (rmatch b s i g)"
    then have "dom (map_of g) \<union> sure_groups b \<subseteq> dom (map_of h)" by (rule Alt.IH(2))
    then show ?thesis unfolding sure_groups.simps by blast
  qed
next
  case (Opt a)
  then have "(j, h) \<in> set (rmatch a s i g) \<or> h = g"
    by auto
  then show ?case
  proof
    assume "(j, h) \<in> set (rmatch a s i g)"
    then have "dom (map_of g) \<union> sure_groups a \<subseteq> dom (map_of h)" by (rule Opt.IH)
    then show ?thesis unfolding sure_groups.simps by blast
  next
    assume "h = g"
    then show ?thesis by simp
  qed
next
  case (Star p)
  then have "h = g" by auto
  then show ?case by simp
next
  case (Plus p)
  then have "h = g" by auto
  then show ?case by simp
next
  case (LazyPlus p)
  then have "h = g" by auto
  then show ?case by simp
next
  case (Group n a)
  then obtain f where inner: "(j, f) \<in> set (rmatch a s i g)"
    and h: "h = (n, take (j - i) (drop i s)) # f"
    by auto
  have "dom (map_of g) \<union> sure_groups a \<subseteq> dom (map_of f)"
    using inner by (rule Group.IH)
  moreover have "dom (map_of h) = insert n (dom (map_of f))"
    by (simp add: h)
  ultimately show ?case
    unfolding sure_groups.simps by blast
next
  case (Ahead a)
  then obtain k where "(k, h) \<in> set (rmatch a s i g)"
    by (cases "rmatch a s i g") auto
  then have "dom (map_of g) \<union> sure_groups a \<subseteq> dom (map_of h)" by (rule Ahead.IH)
  then show ?case by simp
next
  case NotAtStart
  then have "h = g" by (simp split: if_splits)
  then show ?case by simp
qed

lemma first_match_groups:
  "first_match r s ps = Some m \<Longrightarrow> n \<in> sure_groups r \<Longrightarrow> group m n \<noteq> None"
proof (induction ps)
  case Nil
  then show ?case by simp
next
  case (Cons p ps)
  show ?case
  proof (cases "rmatch r s p []")
    case Nil
    with Cons show ?thesis by simp
  next
    case (Cons jh rest)
    obtain j h where jh: "jh = (j, h)" by (cases jh)
    with Cons have "(j, h) \<in> set (rmatch r s p [])" by simp
    then have "sure_groups r \<subseteq> dom (map_of h)"
      using rmatch_groups by fastforce
    moreover from Cons jh Cons.prems(1) have "m_groups m = h" by auto
    ultimately show ?thesis
      using Cons.prems(2) by (auto simp: group_def)
  qed
qed

lemma ENUM_groups:
  assumes "re_match ENUM line = Some m"
  shows "group m ''var'' \<noteq> None \<and> group m ''variants'' \<noteq> None"
proof -
  have "first_match ENUM line [0] = Some m"
    using assms by (simp only: re_match_def)
  moreover have "''var'' \<in> sure_groups ENUM" "''variants'' \<in> sure_groups ENUM"
    by (simp_all add: ENUM_def)
  ultimately show ?thesis by (blast dest: first_match_groups)
qed

lemma INTERFACE_groups:
  assumes "re_match INTERFACE line = Some m"
  shows "group m ''name'' \<noteq> None"
proof -
  have "first_match INTERFACE line [0] = Some m"
    using assms by (simp only: re_match_def)
  moreover have "''name'' \<in> sure_groups INTERFACE"
    by (simp add: INTERFACE_def)
  ultimately show ?thesis by (blast dest: first_match_groups)
qed

lemma FIELD_groups:
  assumes "re_search FIELD line = Some m"
  shows "group m ''var'' \<noteq> None \<and> group m ''type'' \<noteq> None"
proof -
  have "first_match FIELD line [0..<Suc (length line)] = Some m"
    using assms by (simp only: re_search_def)
  moreover have "''var'' \<in> sure_groups FIELD" "''type'' \<in> sure_groups FIELD"
    by (simp_all add: FIELD_def)
  ultimately show ?thesis by (blast dest: first_match_groups)
qed

lemma TOKEN_groups:
  assumes "re_search TOKEN item = Some m"
  shows "group m ''1'' \<noteq> None"
proof -
  have "first_match TOKEN item [0..<Suc (length item)] = Some m"
    using assms by (simp only: re_search_def)
  moreover have "''1'' \<in> sure_groups TOKEN"
    by (simp add: TOKEN_def)
  ultimately show ?thesis by (blast dest: first_match_groups)
qed

section \<open>The generated conversions\<close>

text \<open>
  Claim C1 says that for every closed literal listed in a union expression the generated
  routines give \<^verbatim>\<open>unparse(parse(lit)) == lit\<close>. The code does not do this for a literal of
  more than one word. At the closed union \<^verbatim>\<open>'function breakpoint' | 'step'\<close>, for the enum
  \<^verbatim>\<open>Reason\<close>: the union lists the literal \<^verbatim>\<open>function breakpoint\<close>, for which \<^verbatim>\<open>str_to_variant\<close>
  has the name \<^verbatim>\<open>FunctionBreakpoint\<close>; but \<^verbatim>\<open>get_strings\<close> keeps only the first word of the
  segment, the generated text (which the compiler accepts) has the arm
  \<^verbatim>\<open>"function" => Ok(Reason::Function),\<close> and the generated \<^verbatim>\<open>from_str\<close> answers the listed
  literal with the error \<^verbatim>\<open>StringToEnumParseError\<close>: there is no value to unparse.
\<close>

theorem multi_word_literal_not_parsed:
  \<open>''function breakpoint'' \<in> set (listed_literals ('''function breakpoint' | 'step'' @ [CHR 0x27]))
   \<and> str_to_variant ''function breakpoint'' = Inr ''FunctionBreakpoint''
   \<and> get_strings ('''function breakpoint' | 'step'' @ [CHR 0x27]) = Inr [''function'', ''step'']
   \<and> parse ''Reason'' ('''function breakpoint' | 'step'' @ [CHR 0x27]) ''function breakpoint''
       = Some (Inl (StringToEnumParseError ''Reason'' ''function breakpoint''))\<close>
  by code_simp

text \<open>
  Claim C2 says that for a union expression without the open marker the generated
  \<^verbatim>\<open>from_str\<close> answers every string that equals no closed literal with a decoding failure.
  The code does not do this where a literal has more than one word. At the closed union
  \<^verbatim>\<open>'function breakpoint' | 'step'\<close>, for the enum \<^verbatim>\<open>Reason\<close>: the string \<^verbatim>\<open>function\<close> is no
  literal of the union, and the generated \<^verbatim>\<open>from_str\<close> answers it with the variant
  \<^verbatim>\<open>Reason::Function\<close>, which \<^verbatim>\<open>to_string\<close> turns into \<^verbatim>\<open>function\<close>. (A string that is
  neither a listed literal nor the first word of one is answered as the claim says, with
  \<^verbatim>\<open>StringToEnumParseError\<close> carrying the name of the enum and the string.)
\<close>

theorem first_word_parsed:
  \<open>''function'' \<notin> set (listed_literals ('''function breakpoint' | 'step'' @ [CHR 0x27]))
   \<and> ''string'' \<notin> set (listed_literals ('''function breakpoint' | 'step'' @ [CHR 0x27]))
   \<and> parse ''Reason'' ('''function breakpoint' | 'step'' @ [CHR 0x27]) ''function''
       = Some (Inr (Unit ''Reason'' ''Function''))
   \<and> unparse ''Reason'' ('''function breakpoint' | 'step'' @ [CHR 0x27]) (Unit ''Reason'' ''Function'')
       = Some ''function''
   \<and> parse ''Reason'' ('''function breakpoint' | 'step'' @ [CHR 0x27]) ''pause''
       = Some (Inl (StringToEnumParseError ''Reason'' ''pause''))\<close>
  by code_simp

section \<open>The scenario of interface \<^verbatim>\<open>Issue\<close>\<close>

text \<open>
  Claim C3, as stated, at its own input. The field line of the claim ends in a comma.
  \<^verbatim>\<open>RE.ENUM\<close> ends in a semicolon, so the extractor does not recognise the line: no enum
  is generated, and neither the extractor nor the driver rewrites the union (the driver
  only turns \<^verbatim>\<open>string\<close> into \<^verbatim>\<open>String\<close>).
\<close>

theorem issue_status_comma_counterexample:
  \<open>rewrite_enums [''interface Issue {'', ''status?: 'open' | 'closed' | string,'', ''}'']
     = Inr ([], [''interface Issue {'', ''status?: 'open' | 'closed' | string,'', ''}''])
   \<and> main [''interface Issue {'', ''status?: 'open' | 'closed' | string,'', ''}'']
     = Inr [[], ''pub struct Issue {'', ''status?: 'open' | 'closed' | String,'', ''}'']\<close>
  by code_simp

text \<open>
  Claim C3, amended: for the field line \<^verbatim>\<open>status?: 'open' | 'closed' | string;\<close>, ended by
  a semicolon as the fields of an interface are, inside interface \<^verbatim>\<open>Issue\<close>, the
  pipeline generates one enum, named \<^verbatim>\<open>IssueStatus\<close>, with the variants \<^verbatim>\<open>Open\<close>, \<^verbatim>\<open>Closed\<close>
  and \<^verbatim>\<open>String(String)\<close>; the extractor rewrites the line to
  \<^verbatim>\<open>  pub status: Option<IssueStatus>;\<close> and the driver prints the enum, an empty line,
  and the struct with the field line \<^verbatim>\<open>  pub status: Option<IssueStatus>,\<close>.
\<close>

theorem issue_status_scenario:
  \<open>gen_enum_def ''IssueStatus'' '''open' | 'closed' | string''
     = Inr (tmpl ''IssueStatus''
         (''Open,'' @ [nl] @ ''  Closed,'' @ [nl] @ ''  String(String),'')
         (''"open" => Ok(IssueStatus::Open),'' @ [nl] @
          ''      "closed" => Ok(IssueStatus::Closed),'' @ [nl] @
          ''      other => Ok(IssueStatus::String(other.to_string()))'')
         (''IssueStatus::Open => "open",'' @ [nl] @
          ''      IssueStatus::Closed => "closed",'' @ [nl] @
          ''      IssueStatus::String(other) => other''))
   \<and> rewrite_enums [''interface Issue {'', ''status?: 'open' | 'closed' | string;'', ''}'']
     = map_sum id
         (\<lambda>enum_def. ([(''IssueStatus'', enum_def)],
            [''interface Issue {'', ''  pub status: Option<IssueStatus>;'', ''}'']))
         (gen_enum_def ''IssueStatus'' '''open' | 'closed' | string'')
   \<and> main [''interface Issue {'', ''status?: 'open' | 'closed' | string;'', ''}'']
     = map_sum id
         (\<lambda>enum_def. [enum_def, [], ''pub struct Issue {'',
            ''  pub status: Option<IssueStatus>,'', ''}''])
         (gen_enum_def ''IssueStatus'' '''open' | 'closed' | string'')\<close>
  by code_simp

section \<open>Names of variants\<close>

text \<open>
  Claim C4, as stated, at the literal \<^verbatim>\<open>in  progress\<close>, with two spaces between the words:
  \<^verbatim>\<open>split(" ")\<close> gives an empty word between them, and \<^verbatim>\<open>cap\<close> reads the first character
  of that, which raises \<^verbatim>\<open>IndexError\<close>. No name is derived.
\<close>

theorem empty_word_counterexample:
  "str_to_variant ''in  progress'' = Inl IndexError"
  by code_simp

text \<open>
  Claim C4, amended. The name of the variant is a function of the literal. For a literal
  none of whose words between single spaces is empty, it is the concatenation of the
  words, each with its first character in upper case and the others as they are; for a
  literal with an empty word (two spaces in a row, a space at either end, the empty
  literal) \<^verbatim>\<open>IndexError\<close> is raised. A non-empty literal without spaces is changed in its
  first character only.
\<close>

theorem str_to_variant_words:
  "str_to_variant s =
     (if [] \<in> set (split_on CHR '' '' s) then Inl IndexError
      else Inr (concat (map variant_name (split_on CHR '' '' s))))
   \<and> (s \<noteq> [] \<longrightarrow> CHR '' '' \<notin> set s \<longrightarrow> str_to_variant s = Inr (variant_name s))"
proof
  have words: "traverse cap ws =
      (if [] \<in> set ws then Inl IndexError else Inr (map variant_name ws))" for ws
  proof (induction ws)
    case Nil
    show ?case by simp
  next
    case (Cons w ws)
    then show ?case by (cases w) (auto simp: variant_name_def)
  qed
  then show "str_to_variant s =
     (if [] \<in> set (split_on CHR '' '' s) then Inl IndexError
      else Inr (concat (map variant_name (split_on CHR '' '' s))))"
    by (simp add: str_to_variant_def)
  then show "s \<noteq> [] \<longrightarrow> CHR '' '' \<notin> set s \<longrightarrow> str_to_variant s = Inr (variant_name s)"
    by (simp add: split_on_absent)
qed

theorem str_to_variant_words_witness:
  "str_to_variant ''in progress'' = Inr ''InProgress''
   \<and> str_to_variant ''inProgress'' = Inr ''InProgress''"
proof -
  have words: "split_on CHR '' '' ''in progress'' = [''in'', ''progress'']"
    by code_simp
  have names: "variant_name ''in'' = ''In''" "variant_name ''progress'' = ''Progress''"
    "variant_name ''inProgress'' = ''InProgress''"
    by code_simp+
  have "str_to_variant ''in progress'' = Inr ''InProgress''"
    using str_to_variant_words [of "''in progress''"] by (simp add: words names)
  moreover have "str_to_variant ''inProgress'' = Inr ''InProgress''"
    using str_to_variant_words [of "''inProgress''"] by (simp add: names)
  ultimately show ?thesis by simp
qed

section \<open>The line filter\<close>

text \<open>
  Claim C5, as stated, at the line \<^verbatim>\<open>  subevent: string;\<close>. The name of the field is
  \<^verbatim>\<open>subevent\<close>, which ends with \<^verbatim>\<open>event\<close> and is not \<^verbatim>\<open>event\<close>. \<^verbatim>\<open>RE.TYPE_TAG\<close> is looked
  for with \<^verbatim>\<open>re.search\<close> and has no anchor, so it matches inside the line, and the line is
  dropped.
\<close>

theorem field_ending_in_event_counterexample:
  "should_remove ''  subevent: string;''"
  by code_simp

text \<open>
  Claim C5, amended. The filter drops a line if and only if the line consists of white
  space only (the empty line too), or contains one of the texts \<^verbatim>\<open>  /**\<close>, \<^verbatim>\<open>  */\<close> (each
  with its two leading spaces), \<^verbatim>\<open>body: {\<close>, \<^verbatim>\<open>};\<close>, \<^verbatim>\<open>event: \<close> or \<^verbatim>\<open>command: \<close>
  anywhere. So a field whose name ends with \<^verbatim>\<open>event\<close> or \<^verbatim>\<open>command\<close> is dropped too; one
  whose name contains \<^verbatim>\<open>event\<close> or \<^verbatim>\<open>command\<close> before other characters is kept, unless
  the line has one of the texts elsewhere.
\<close>

theorem should_remove_iff:
  "should_remove line \<longleftrightarrow>
     (\<forall>c\<in>set line. is_space c)
     \<or> sublist ''  /**'' line \<or> sublist ''  */'' line \<or> sublist ''body: {'' line
     \<or> sublist ''};'' line \<or> sublist ''event: '' line \<or> sublist ''command: '' line"
proof -
  have "should_remove line \<longleftrightarrow>
      strip line = [] \<or> re_search (Str ''  /**'') line \<noteq> None
      \<or> re_search (Str ''  */'') line \<noteq> None \<or> re_search (Str ''body: {'') line \<noteq> None
      \<or> re_search (Str ''};'') line \<noteq> None \<or> re_search TYPE_TAG line \<noteq> None"
    by (simp add: should_remove_def RM_LINES_WITH_def del: not_None_eq)
  then show ?thesis
    by (simp only: re_search_Str re_search_TYPE_TAG strip_empty)
qed
theorem should_remove_iff_witness:
  "should_remove ''  subcommand: string;'' \<and> \<not> should_remove ''  eventType: string;''"
proof -
  have "sublist ''command: '' ''  subcommand: string;''"
    by code_simp
  then have dropped: "should_remove ''  subcommand: string;''"
    using should_remove_iff [of "''  subcommand: string;''"] by blast
  have "\<not> (\<forall>c\<in>set ''  eventType: string;''. is_space c)"
    "\<not> sublist ''  /**'' ''  eventType: string;''"
    "\<not> sublist ''  */'' ''  eventType: string;''"
    "\<not> sublist ''body: {'' ''  eventType: string;''"
    "\<not> sublist ''};'' ''  eventType: string;''"
    "\<not> sublist ''event: '' ''  eventType: string;''"
    "\<not> sublist ''command: '' ''  eventType: string;''"
    by code_simp+
  then have "\<not> should_remove ''  eventType: string;''"
    using should_remove_iff [of "''  eventType: string;''"] by blast
  with dropped show ?thesis by simp
qed

section \<open>Names of fields\<close>

text \<open>
  Claim C6, as stated, at the name \<^verbatim>\<open>Foo\<close>. No letter after the first is in upper case,
  and the name is not returned unchanged: \<^verbatim>\<open>.lower()\<close> is applied to the whole name, the
  first letter too.
\<close>

theorem leading_capital_counterexample:
  "this_is_snek ''Foo'' = ''foo''"
  by code_simp

text \<open>
  Claim C6, amended. The conversion puts the separator \<^verbatim>\<open>_\<close> before every upper-case
  letter that is not the first character and then puts the whole name in lower case; so
  \<^verbatim>\<open>someFieldName\<close> becomes \<^verbatim>\<open>some_field_name\<close>. A name without any upper-case letter is
  returned unchanged. (A name whose only upper-case letter is the first one gets no
  separator and is returned in lower case.)
\<close>

theorem this_is_snek_underscored:
  "this_is_snek name = lower (underscored name)
   \<and> ((\<forall>c\<in>set name. \<not> is_upper c) \<longrightarrow> this_is_snek name = name)"
proof
  show eq: "this_is_snek name = lower (underscored name)"
    by (simp add: this_is_snek_def re_sub_SNEK)
  show "(\<forall>c\<in>set name. \<not> is_upper c) \<longrightarrow> this_is_snek name = name"
  proof
    assume no: "\<forall>c\<in>set name. \<not> is_upper c"
    then have "map lower_char name = name"
      by (simp add: lower_char_id map_idI)
    with no show "this_is_snek name = name"
      by (simp add: eq underscored_id lower_def)
  qed
qed
theorem this_is_snek_underscored_witness:
  "this_is_snek ''someFieldName'' = ''some_field_name'' \<and> this_is_snek ''name'' = ''name''"
proof -
  have "lower (underscored ''someFieldName'') = ''some_field_name''"
    by code_simp
  then have camel: "this_is_snek ''someFieldName'' = ''some_field_name''"
    using this_is_snek_underscored [of "''someFieldName''"] by simp
  have "\<forall>c\<in>set ''name''. \<not> is_upper c"
    by code_simp
  then have "this_is_snek ''name'' = ''name''"
    using this_is_snek_underscored [of "''name''"] by blast
  with camel show ?thesis by simp
qed

section \<open>Segments without a word\<close>

text \<open>
  Claim C7, as stated, at the union \<^verbatim>\<open>| 'stopped' | string\<close>, written with a leading
  separator. The segment before the first separator is empty; \<^verbatim>\<open>re.search\<close> returns
  \<^verbatim>\<open>None\<close> for it and \<^verbatim>\<open>.group(1)\<close> raises \<^verbatim>\<open>AttributeError\<close>. The exception leaves
  \<^verbatim>\<open>get_strings\<close>, \<^verbatim>\<open>gen_enum_def\<close> and \<^verbatim>\<open>rewrite_enums\<close>: nothing is generated.
\<close>

theorem empty_segment_counterexample:
  \<open>get_strings ''| 'stopped' | string'' = Inl AttributeError
   \<and> gen_enum_def ''Reason'' ''| 'stopped' | string'' = Inl AttributeError
   \<and> rewrite_enums [''interface Stopped {'', ''  reason: | 'stopped' | string;'', ''}'']
     = Inl AttributeError\<close>
  by code_simp

text \<open>
  Claim C7, amended. When every segment between the separators \<^verbatim>\<open>|\<close> has a word
  character, \<^verbatim>\<open>get_strings\<close> returns one string for each segment, in order: the first
  maximal run of word characters of the segment. When some segment has none,
  \<^verbatim>\<open>get_strings\<close> raises \<^verbatim>\<open>AttributeError\<close>, and so does \<^verbatim>\<open>gen_enum_def\<close>: the generator
  aborts.
\<close>

theorem get_strings_segments:
  "get_strings line =
     (if \<forall>seg\<in>set (split_on CHR ''|'' line). \<exists>c\<in>set seg. is_word c
      then Inr (map first_word (split_on CHR ''|'' line))
      else Inl AttributeError)
   \<and> (get_strings line = Inl AttributeError \<longrightarrow> gen_enum_def enum_name line = Inl AttributeError)"
  by (simp add: get_strings_eq gen_enum_def_def)

theorem get_strings_segments_witness:
  \<open>get_strings '''open' | 'closed' | string'' = Inr [''open'', ''closed'', ''string'']
   \<and> gen_enum_def ''Reason'' ''| 'stopped' | string'' = Inl AttributeError\<close>
proof -
  have ok: \<open>\<forall>seg\<in>set (split_on CHR ''|'' '''open' | 'closed' | string''). \<exists>c\<in>set seg. is_word c\<close>
    by code_simp
  have ws: \<open>map first_word (split_on CHR ''|'' '''open' | 'closed' | string'')
      = [''open'', ''closed'', ''string'']\<close>
    by code_simp
  have bad: \<open>\<not> (\<forall>seg\<in>set (split_on CHR ''|'' ''| 'stopped' | string''). \<exists>c\<in>set seg. is_word c)\<close>
    by code_simp
  have \<open>get_strings '''open' | 'closed' | string''
      = Inr (map first_word (split_on CHR ''|'' '''open' | 'closed' | string''))\<close>
    using get_strings_segments [of \<open>'''open' | 'closed' | string''\<close>] ok by metis
  then have \<open>get_strings '''open' | 'closed' | string'' = Inr [''open'', ''closed'', ''string'']\<close>
    by (simp only: ws)
  moreover have \<open>gen_enum_def ''Reason'' ''| 'stopped' | string'' = Inl AttributeError\<close>
    using get_strings_segments [of \<open>''| 'stopped' | string''\<close> "''Reason''"] bad by metis
  ultimately show ?thesis by simp
qed

section \<open>The enums of an input file\<close>

text \<open>
  Claim C8, as stated, at an interface with the fields \<^verbatim>\<open>fooBar\<close>, \<^verbatim>\<open>b\<close> and \<^verbatim>\<open>foobar\<close>, all
  three of a union type. \<^verbatim>\<open>capitalize\<close> gives the first and the third the same enum name
  \<^verbatim>\<open>IFoobar\<close>. The dictionary keeps the place of the key and takes the later value: the
  block generated from the third field is printed before the block generated from the
  second, and the block generated from the first field is not printed.
\<close>

theorem same_enum_name_counterexample:
  \<open>main [''interface I {'', ''  fooBar: 'x' | string;'', ''  b: 'p' | string;'',
          ''  foobar: 'z' | string;'', ''}'']
     = Inr [projr (gen_enum_def ''IFoobar'' '''z' | string''),
            projr (gen_enum_def ''IB'' '''p' | string''),
            [],
            ''pub struct I {'', ''  pub foo_bar: IFoobar,'', ''  pub b: IB,'',
            ''  pub foobar: IFoobar,'', ''}'']\<close>
  by code_simp

text \<open>
  Claim C8, amended. Let the driver run to its end on an input file whose union-typed
  fields get enum names that differ from one another. Then it prints the enum blocks of
  these fields in the order of the fields in the file, one block for each field, wherever
  the fields stand among the other lines; after the blocks it prints an empty line, and
  after that the lines of the rewritten struct body.
\<close>

theorem enum_blocks_in_field_order:
  assumes "main ls = Inr out"
    and "distinct (map fst (union_fields None ls))"
  shows "\<exists>defs es ls'.
      traverse (\<lambda>(name, expr). gen_enum_def name expr) (union_fields None ls) = Inr defs
    \<and> rewrite_enums ls = Inr (es, ls')
    \<and> out = defs @ [[]] @
        map (\<lambda>line. edit_field_line (dict_replace line RPL))
          (filter (\<lambda>line. \<not> should_remove line) ls')"
proof -
  from assms(1) obtain es ls' where re: "rewrite_enums ls = Inr (es, ls')"
    and out: "out = map snd es @ [[]] @
        map (\<lambda>line. edit_field_line (dict_replace line RPL))
          (filter (\<lambda>line. \<not> should_remove line) ls')"
    by (auto simp: main_def split: sum.splits)
  from re obtain st' where run:
    "rewrite_loop (enumerate 0 ls) \<lparr>enums = [], struct_name = None, lines = ls\<rparr> = Inr st'"
    and es: "es = enums st'"
    by (auto simp: rewrite_enums_def split: sum.splits)
  from rewrite_loop_enums [OF run] obtain defs where
    defs: "traverse (\<lambda>(name, expr). gen_enum_def name expr) (union_fields None ls) = Inr defs"
    and stored: "enums st' = store_all [] (zip (map fst (union_fields None ls)) defs)"
    by auto
  have len: "length defs = length (union_fields None ls)"
    using defs by (rule traverse_length)
  then have keys: "map fst (zip (map fst (union_fields None ls)) defs) = map fst (union_fields None ls)"
    by simp
  have "store_all [] (zip (map fst (union_fields None ls)) defs)
      = [] @ zip (map fst (union_fields None ls)) defs"
    using assms(2) by (intro store_all_distinct) (simp_all only: keys, simp)
  then have "map snd es = defs"
    using len by (simp add: es stored)
  with defs re out show ?thesis by blast
qed

theorem enum_blocks_in_field_order_witness:
  \<open>\<exists>kind state body.
      gen_enum_def ''ThreadKind'' '''user' | string'' = Inr kind
    \<and> gen_enum_def ''ThreadState'' '''running' | string'' = Inr state
    \<and> main [''interface Thread {'', ''  kind: 'user' | string;'', ''  name: string;'',
             ''  state?: 'running' | string;'', ''}'']
       = Inr ([kind, state] @ [[]] @ body)\<close>
proof -
  let ?ls = \<open>[''interface Thread {'', ''  kind: 'user' | string;'', ''  name: string;'',
             ''  state?: 'running' | string;'', ''}'']\<close>
  have fields: \<open>union_fields None ?ls
      = [(''ThreadKind'', '''user' | string''), (''ThreadState'', '''running' | string'')]\<close>
    by code_simp
  have "\<not> isl (main ?ls)"
    by code_simp
  then obtain out where out: "main ?ls = Inr out"
    by (cases "main ?ls") auto
  have "distinct (map fst (union_fields None ?ls))"
    unfolding fields by simp
  from enum_blocks_in_field_order [OF out this] obtain defs body where
    defs: "traverse (\<lambda>(name, expr). gen_enum_def name expr) (union_fields None ?ls) = Inr defs"
    and printed: "out = defs @ [[]] @ body"
    by blast
  from defs obtain kind state where
    \<open>gen_enum_def ''ThreadKind'' '''user' | string'' = Inr kind\<close>
    \<open>gen_enum_def ''ThreadState'' '''running' | string'' = Inr state\<close>
    "defs = [kind, state]"
    unfolding fields by (auto split: sum.splits)
  with out printed show ?thesis by blast
qed

section \<open>The names of the enums\<close>



text \<open>
  Claim C10. Let the extractor run to its end on an input in which a union-typed field
  line stands inside the interface \<open>sn\<close>. Then the name of the enum generated for the field
  is \<open>sn\<close> followed by the capitalized name of the field, in which every character after
  the first is in lower case: no upper-case letter of the name of the field is kept after
  its first character. So the field \<^verbatim>\<open>presentationHint\<close> inside interface \<^verbatim>\<open>Source\<close> gives the
  name \<^verbatim>\<open>SourcePresentationhint\<close>.
\<close>

theorem enum_name_lower_case:
  assumes "rewrite_enums ls = Inr (es, ls')"
    and "i < length ls"
    and "re_match INTERFACE (ls ! i) = None"
    and "re_match ENUM (ls ! i) = Some m"
    and "current_struct None (take i ls) = Some sn"
  shows "sn @ capitalize (text_of (group m ''var'')) \<in> fst ` set es
    \<and> tl (capitalize (text_of (group m ''var''))) = lower (tl (text_of (group m ''var'')))
    \<and> (\<forall>c\<in>set (tl (capitalize (text_of (group m ''var'')))). \<not> is_upper c)"
proof -
  have "typename_of (Some sn) m \<in> fst ` set es"
    using rewrite_enums_field [OF assms(1-4)] assms(5) by simp
  then have "sn @ capitalize (text_of (group m ''var'')) \<in> fst ` set es"
    by (simp add: typename_of_def format_opt_def)
  moreover have "tl (capitalize v) = lower (tl v)" for v
    by (cases v) (simp_all add: lower_def)
  moreover have "\<forall>c\<in>set (lower v). \<not> is_upper c" for v
    by (simp add: lower_def lower_char_not_upper)
  ultimately show ?thesis by simp
qed

theorem enum_name_lower_case_witness:
  \<open>\<exists>es ls'. rewrite_enums [''interface Source {'',
        ''  presentationHint?: 'normal' | 'emphasize' | 'deemphasize' | string;'']
       = Inr (es, ls')
     \<and> ''SourcePresentationhint'' \<in> fst ` set es\<close>
proof -
  let ?ls = \<open>[''interface Source {'',
        ''  presentationHint?: 'normal' | 'emphasize' | 'deemphasize' | string;'']\<close>
  let ?m = \<open>\<lparr>m_start = 0, m_end = 69,
     m_groups = [(''variants'', '''normal' | 'emphasize' | 'deemphasize' | string''),
                 (''opt'', ''?''), (''var'', ''presentationHint'')]\<rparr>\<close>
  have "\<not> isl (rewrite_enums ?ls)"
    by code_simp
  then obtain es ls' where ok: "rewrite_enums ?ls = Inr (es, ls')"
    by (cases "rewrite_enums ?ls") auto
  have i: "1 < length ?ls"
    by simp
  have ni: "re_match INTERFACE (?ls ! 1) = None"
    by code_simp
  have field: "re_match ENUM (?ls ! 1) = Some ?m"
    by code_simp
  have inside: "current_struct None (take 1 ?ls) = Some ''Source''"
    by code_simp
  have name: "''Source'' @ capitalize (text_of (group ?m ''var'')) = ''SourcePresentationhint''"
    by code_simp
  from enum_name_lower_case [OF ok i ni field inside]
  have "''Source'' @ capitalize (text_of (group ?m ''var'')) \<in> fst ` set es"
    by (rule conjunct1)
  then have "''SourcePresentationhint'' \<in> fst ` set es"
    by (simp only: name)
  with ok show ?thesis by blast
qed

end
